theory Spec2Isabelle
  imports Complex_Main
begin

section \<open>Bytes, text and the library calls the programs use\<close>

text \<open>
  A Python \<open>bytes\<close> value is a list of 8-bit characters. A Python \<open>str\<close> is
  represented by its UTF-8 encoding: \<open>s.encode('utf-8')\<close> is then the identity, and
  \<open>b.decode('utf-8')\<close> succeeds exactly on the well-formed byte sequences and raises
  \<open>UnicodeDecodeError\<close> on the others. The delimiter \<open>|\<close> is the single byte
  \<open>0x7C\<close>, which never occurs inside a multi-byte sequence, so splitting the text at
  \<open>|\<close> and splitting its encoding at \<open>0x7C\<close> agree.
\<close>

type_synonym bytes = string
type_synonym pystr = string

datatype error =
    OSError
  | ValueError
  | UnicodeDecodeError
  | ConnectionRefusedError
  | TimeoutError
  | GaiError
  | SSLError
  | RuntimeError

definition byte :: "char \<Rightarrow> nat" where
  "byte c = of_char c"

definition cont :: "char \<Rightarrow> bool" where
  "cont c \<longleftrightarrow> 0x80 \<le> byte c \<and> byte c \<le> 0xBF"

text \<open>The number of bytes a sequence takes, read from its first byte; 0 for a byte that
  cannot start a sequence.\<close>

definition seq_len :: "char \<Rightarrow> nat" where
  "seq_len a =
     (if byte a < 0x80 then 1
      else if byte a < 0xC2 then 0
      else if byte a \<le> 0xDF then 2
      else if byte a \<le> 0xEF then 3
      else if byte a \<le> 0xF4 then 4
      else 0)"

text \<open>The bytes that follow the first byte of a sequence are the right ones
  (no overlong form, no surrogate, nothing above U+10FFFF).\<close>

definition seq_ok :: "char \<Rightarrow> bytes \<Rightarrow> bool" where
  "seq_ok a rest =
     (case rest of
        [] \<Rightarrow> True
      | [b] \<Rightarrow> cont b
      | [b, c] \<Rightarrow>
          (if byte a = 0xE0 then 0xA0 \<le> byte b \<and> byte b \<le> 0xBF
           else if byte a = 0xED then 0x80 \<le> byte b \<and> byte b \<le> 0x9F
           else cont b) \<and> cont c
      | [b, c, d] \<Rightarrow>
          (if byte a = 0xF0 then 0x90 \<le> byte b \<and> byte b \<le> 0xBF
           else if byte a = 0xF4 then 0x80 \<le> byte b \<and> byte b \<le> 0x8F
           else cont b) \<and> cont c \<and> cont d
      | _ \<Rightarrow> False)"

function utf8_valid :: "bytes \<Rightarrow> bool" where
  "utf8_valid [] = True"
| "utf8_valid (a # bs) =
     (0 < seq_len a \<and> seq_len a \<le> Suc (length bs) \<and>
      seq_ok a (take (seq_len a - 1) bs) \<and> utf8_valid (drop (seq_len a - 1) bs))"
  by pat_completeness auto
termination
  by (relation "measure length") auto

definition decode_utf8 :: "bytes \<Rightarrow> error + pystr" where
  "decode_utf8 b = (if utf8_valid b then Inr b else Inl UnicodeDecodeError)"

text \<open>\<open>s.split(sep)\<close> for a one-character separator: one more piece than there are
  separators.\<close>

fun split_on :: "char \<Rightarrow> pystr \<Rightarrow> pystr list" where
  "split_on sep [] = [[]]"
| "split_on sep (c # cs) =
     (if c = sep then [] # split_on sep cs
      else (case split_on sep cs of p # ps \<Rightarrow> (c # p) # ps | [] \<Rightarrow> [[c]]))"

fun index_of :: "char \<Rightarrow> bytes \<Rightarrow> nat option" where
  "index_of c [] = None"
| "index_of c (x # xs) = (if x = c then Some 0 else map_option Suc (index_of c xs))"

text \<open>\<open>data.find(c, start)\<close>: the lowest index at or after \<open>start\<close>, or \<open>-1\<close>.
  A negative \<open>start\<close> counts from the end.\<close>

definition bytes_find :: "bytes \<Rightarrow> char \<Rightarrow> int \<Rightarrow> int" where
  "bytes_find d c start =
     (let s = (if start < 0 then nat (max 0 (int (length d) + start)) else nat start)
      in case index_of c (drop s d) of None \<Rightarrow> - 1 | Some i \<Rightarrow> int (s + i))"

text \<open>The slices \<open>xs[:n]\<close> and \<open>xs[n:]\<close>; a negative bound counts from the end.\<close>

definition slice_to :: "'a list \<Rightarrow> int \<Rightarrow> 'a list" where
  "slice_to xs n = (if n < 0 then take (length xs - nat (- n)) xs else take (nat n) xs)"

definition slice_from :: "'a list \<Rightarrow> int \<Rightarrow> 'a list" where
  "slice_from xs n = (if n < 0 then drop (length xs - nat (- n)) xs else drop (nat n) xs)"

text \<open>
  \<open>int(s)\<close> on ASCII text: blanks are stripped on both sides, one sign is allowed, then
  decimal digits with single underscores between them. Anything else is a
  \<open>ValueError\<close>. Text with a character outside ASCII is rejected here; no statement
  below speaks about the size field of such a header. The bound that recent
  interpreters put on the number of digits (4300 unless configured) is left out, so
  the definition is that of \<open>int\<close> on ASCII text of at most 4300 characters; the
  statements below that speak about an arbitrary size field are about such text.
\<close>

definition is_space :: "char \<Rightarrow> bool" where
  "is_space c \<longleftrightarrow> byte c = 32 \<or> (9 \<le> byte c \<and> byte c \<le> 13)"

definition digit_val :: "char \<Rightarrow> nat option" where
  "digit_val c = (if 48 \<le> byte c \<and> byte c \<le> 57 then Some (byte c - 48) else None)"

definition strip :: "pystr \<Rightarrow> pystr" where
  "strip s = rev (dropWhile is_space (rev (dropWhile is_space s)))"

fun digits_value :: "bool \<Rightarrow> nat \<Rightarrow> pystr \<Rightarrow> nat option" where
  "digits_value prev_us acc [] = (if prev_us then None else Some acc)"
| "digits_value prev_us acc (c # cs) =
     (if c = CHR ''_'' then (if prev_us then None else digits_value True acc cs)
      else (case digit_val c of
              None \<Rightarrow> None
            | Some v \<Rightarrow> digits_value False (acc * 10 + v) cs))"

definition unsigned_int :: "pystr \<Rightarrow> nat option" where
  "unsigned_int s =
     (case s of
        [] \<Rightarrow> None
      | c # cs \<Rightarrow> (case digit_val c of None \<Rightarrow> None | Some v \<Rightarrow> digits_value False v cs))"

definition py_int :: "pystr \<Rightarrow> error + int" where
  "py_int s =
     (case strip s of
        [] \<Rightarrow> Inl ValueError
      | c # cs \<Rightarrow>
          if c = CHR ''-'' then
            (case unsigned_int cs of None \<Rightarrow> Inl ValueError | Some n \<Rightarrow> Inr (- int n))
          else if c = CHR ''+'' then
            (case unsigned_int cs of None \<Rightarrow> Inl ValueError | Some n \<Rightarrow> Inr (int n))
          else
            (case unsigned_int (c # cs) of None \<Rightarrow> Inl ValueError | Some n \<Rightarrow> Inr (int n)))"

text \<open>\<open>str(n)\<close> for a length \<open>n\<close>: its decimal digits.\<close>

fun py_str :: "nat \<Rightarrow> pystr" where
  "py_str n =
     (if n < 10 then [char_of (48 + n)]
      else py_str (n div 10) @ [char_of (48 + n mod 10)])"

declare py_str.simps [simp del]

text \<open>\<open>os.path.join(a, b)\<close> and \<open>os.path.basename(p)\<close> on a POSIX system.\<close>

definition path_join :: "pystr \<Rightarrow> pystr \<Rightarrow> pystr" where
  "path_join a b =
     (if (case b of c # _ \<Rightarrow> c = CHR ''/'' | [] \<Rightarrow> False) then b
      else if a = [] \<or> last a = CHR ''/'' then a @ b
      else a @ ''/'' @ b)"

definition basename :: "pystr \<Rightarrow> pystr" where
  "basename p = rev (takeWhile (\<lambda>c. c \<noteq> CHR ''/'') (rev p))"

section \<open>The server: \<open>FileTransferServer._handle_client\<close>\<close>

text \<open>
  What the peer and the machine do is given to the handler as an environment: the
  results of the successive \<open>recv(4096)\<close> calls (after the last one the peer has
  closed, and \<open>recv\<close> returns \<open>b""\<close>), what happens when the file is opened and
  written, and whether \<open>sendall\<close> of the acknowledgement goes through. A peer that
  neither sends nor closes keeps \<open>recv\<close> waiting for ever (the socket has no
  timeout): that is the result \<open>Stall\<close>, and a call that never returns has the
  value \<open>None\<close>.
  A chunk has at most 4096 bytes in a real run; the loop does not depend on it, and the
  statements below hold for chunks of any length. \<open>print\<close> is taken not to fail, and
  only the exceptions that the handler and the acceptor report are recorded.
\<close>

datatype recv_result = Chunk bytes | RecvError | Stall

datatype disk_outcome = WriteOk | OpenFails | WriteFails nat

type_synonym files = "pystr \<rightharpoonup> bytes"

record conn_env =
  incoming :: "recv_result list"
  disk :: disk_outcome
  ack_delivered :: bool

record recv_state =
  data :: bytes
  header_received :: bool
  filename :: pystr
  filesize :: int

definition initial_state :: recv_state where
  "initial_state = \<lparr> data = [], header_received = False, filename = [], filesize = 0 \<rparr>"

definition header_end :: "bytes \<Rightarrow> int" where
  "header_end d = bytes_find d CHR ''|'' (bytes_find d CHR ''|'' 0 + 1) + 1"

text \<open>Lines 118 to 132: the header is looked for once a \<open>|\<close> is in the buffer.\<close>

definition process_header :: "recv_state \<Rightarrow> error + recv_state" where
  "process_header st =
     (if \<not> header_received st \<and> CHR ''|'' \<in> set (data st) then
        (case decode_utf8 (slice_to (data st) (header_end (data st))) of
           Inl e \<Rightarrow> Inl e
         | Inr header \<Rightarrow>
             (let parts = split_on CHR ''|'' header in
              if length parts \<ge> 2 then
                (case py_int (parts ! 1) of
                   Inl e \<Rightarrow> Inl e
                 | Inr n \<Rightarrow>
                     Inr (st \<lparr> filename := parts ! 0, filesize := n, header_received := True,
                               data := slice_from (data st) (header_end (data st)) \<rparr>))
              else Inr st))
      else Inr st)"

text \<open>Lines 110 to 136: the receive loop, one recursion per \<open>recv\<close>.\<close>

fun recv_loop :: "recv_result list \<Rightarrow> recv_state \<Rightarrow> (error + recv_state) option" where
  "recv_loop [] st = Some (Inr st)"
| "recv_loop (Stall # rest) st = None"
| "recv_loop (RecvError # rest) st = Some (Inl OSError)"
| "recv_loop (Chunk chunk # rest) st =
     (if chunk = [] then Some (Inr st)
      else (case process_header (st \<lparr> data := data st @ chunk \<rparr>) of
              Inl e \<Rightarrow> Some (Inl e)
            | Inr st' \<Rightarrow>
                if header_received st' \<and> int (length (data st')) \<ge> filesize st'
                then Some (Inr st')
                else recv_loop rest st'))"

text \<open>\<open>with open(filepath, 'wb') as f: f.write(content)\<close>. A path that holds a NUL
  byte is refused by \<open>open\<close> with \<open>ValueError\<close>, whatever the disk would do.
  Otherwise opening creates or empties the file, and a write that fails leaves some
  prefix of the content behind.\<close>

definition write_file :: "files \<Rightarrow> disk_outcome \<Rightarrow> pystr \<Rightarrow> bytes \<Rightarrow> files \<times> error option" where
  "write_file fs outcome path content =
     (if CHR 0x00 \<in> set path then (fs, Some ValueError)
      else
        (case outcome of
           WriteOk \<Rightarrow> (fs(path \<mapsto> content), None)
         | OpenFails \<Rightarrow> (fs, Some OSError)
         | WriteFails k \<Rightarrow> (fs(path \<mapsto> take k content), Some OSError)))"

definition ack_message :: bytes where
  "ack_message = ''ACK: Arquivo recebido com sucesso!''"

record handler_result =
  files_after :: files
  sent :: "bytes list"
  closed :: bool
  caught :: "error option"

definition protocol_tag :: "bool \<Rightarrow> pystr" where
  "protocol_tag use_tls = (if use_tls then ''TLS'' else ''TCP'')"

text \<open>The \<open>try\<close> block of the handler (lines 103 to 147). The socket is still open
  when it ends; \<open>caught\<close> is the exception that left it, if one did.\<close>

definition handle_client_try ::
    "bool \<Rightarrow> pystr \<Rightarrow> files \<Rightarrow> conn_env \<Rightarrow> handler_result option" where
  "handle_client_try use_tls output_dir fs env =
     (case recv_loop (incoming env) initial_state of
        None \<Rightarrow> None
      | Some (Inl e) \<Rightarrow>
          Some \<lparr> files_after = fs, sent = [], closed = False, caught = Some e \<rparr>
      | Some (Inr st) \<Rightarrow>
          Some
           (if header_received st then
              (let filepath = path_join output_dir (protocol_tag use_tls @ ''_'' @ filename st) in
               case write_file fs (disk env) filepath (slice_to (data st) (filesize st)) of
                 (fs', Some e) \<Rightarrow>
                   \<lparr> files_after = fs', sent = [], closed = False, caught = Some e \<rparr>
               | (fs', None) \<Rightarrow>
                   if ack_delivered env
                   then \<lparr> files_after = fs', sent = [ack_message], closed = False,
                          caught = None \<rparr>
                   else \<lparr> files_after = fs', sent = [], closed = False,
                          caught = Some OSError \<rparr>)
            else \<lparr> files_after = fs, sent = [], closed = False, caught = None \<rparr>))"

text \<open>The whole handler: the \<open>except\<close> clause reports the exception and the
  \<open>finally\<close> clause closes the socket (lines 149 to 153). Neither is reached while
  \<open>recv\<close> waits.\<close>

definition handle_client ::
    "bool \<Rightarrow> pystr \<Rightarrow> files \<Rightarrow> conn_env \<Rightarrow> handler_result option" where
  "handle_client use_tls output_dir fs env =
     map_option (\<lambda>r. r \<lparr> closed := True \<rparr>) (handle_client_try use_tls output_dir fs env)"

section \<open>The server: \<open>FileTransferServer.start\<close> and \<open>stop\<close>\<close>

text \<open>
  The acceptor owns the listening socket and the flag \<open>running\<close>. Accepted
  connections are numbered; \<open>open_conns\<close> holds the accepted sockets that nobody has
  closed yet, \<open>handlers\<close> the connections for which a handler thread was started,
  and \<open>reported\<close> the exceptions the acceptor printed.
\<close>

record server_state =
  use_tls :: bool
  output_dir :: pystr
  running :: bool
  listener :: "bool option"
  open_conns :: "nat set"
  handlers :: "nat list"
  store :: files
  reported :: "error list"

definition new_server :: "bool \<Rightarrow> files \<Rightarrow> server_state" where
  "new_server tls fs =
     \<lparr> use_tls = tls, output_dir = ''received_files'', running = False, listener = None,
       open_conns = {}, handlers = [], store = fs, reported = [] \<rparr>"

definition stop :: "server_state \<Rightarrow> server_state" where
  "stop s = s \<lparr> running := False, listener := map_option (\<lambda>_. False) (listener s) \<rparr>"

definition report :: "error \<Rightarrow> server_state \<Rightarrow> server_state" where
  "report e s = s \<lparr> reported := reported s @ [e] \<rparr>"

text \<open>
  What one call of \<open>accept()\<close> brings: a connection, with what the TLS set-up does to
  it on a TLS server (\<open>_setup_tls_context\<close> may raise when the certificate cannot be
  loaded, \<open>wrap_socket\<close> when the handshake fails) and whether the handler thread
  starts; an exception of \<open>accept\<close> itself; a \<open>KeyboardInterrupt\<close>; or the exception
  \<open>accept\<close> raises after \<open>stop()\<close> was called from elsewhere.
\<close>

datatype tls_setup = TlsReady | ContextFails | HandshakeFails

datatype accept_result =
    Accepted nat tls_setup bool
  | AcceptFails
  | KeyboardInterrupt
  | Stopped

datatype loop_ctl = Continue | Break

text \<open>One turn of the \<open>while self.running\<close> loop (lines 67 to 92). When the
  handshake fails, \<open>wrap_socket\<close> itself closes the socket it was given before it
  raises; the \<open>except\<close> clause of the loop closes nothing.\<close>

definition accept_once :: "accept_result \<Rightarrow> server_state \<Rightarrow> loop_ctl \<times> server_state" where
  "accept_once r s =
     (case r of
        Accepted c tls started \<Rightarrow>
          (let s1 = s \<lparr> open_conns := insert c (open_conns s) \<rparr> in
           if use_tls s \<and> tls = ContextFails then (Continue, report OSError s1)
           else if use_tls s \<and> tls = HandshakeFails then
             (Continue, report SSLError (s1 \<lparr> open_conns := open_conns s1 - {c} \<rparr>))
           else if \<not> started then (Continue, report RuntimeError s1)
           else (Continue, s1 \<lparr> handlers := handlers s1 @ [c] \<rparr>))
      | AcceptFails \<Rightarrow> (Continue, if running s then report OSError s else s)
      | KeyboardInterrupt \<Rightarrow> (Break, s)
      | Stopped \<Rightarrow> (Continue, stop s))"

text \<open>A handler thread runs \<open>_handle_client\<close> on its connection, with the files on
  disk as they are at that moment. A handler that never returns changes nothing.\<close>

definition run_handler :: "nat \<Rightarrow> conn_env \<Rightarrow> server_state \<Rightarrow> server_state" where
  "run_handler c env s =
     (if c \<in> set (handlers s) \<and> c \<in> open_conns s then
        (case handle_client (use_tls s) (output_dir s) (store s) env of
           None \<Rightarrow> s
         | Some r \<Rightarrow>
             s \<lparr> store := files_after r,
                 open_conns := (if closed r then open_conns s - {c} else open_conns s) \<rparr>)
      else s)"

text \<open>The run of the server: the turns of the accept loop, with the handler threads
  running in between. At the end of the events the acceptor is either blocked in
  \<open>accept()\<close> or has left the loop.\<close>

datatype event = Acceptor accept_result | Handler nat conn_env

datatype loop_status = Accepting | Exited

fun accept_loop :: "event list \<Rightarrow> server_state \<Rightarrow> loop_status \<times> server_state" where
  "accept_loop [] s = (if running s then Accepting else Exited, s)"
| "accept_loop (Handler c env # es) s = accept_loop es (run_handler c env s)"
| "accept_loop (Acceptor r # es) s =
     (if \<not> running s then (Exited, s)
      else (case accept_once r s of
              (Break, s') \<Rightarrow> (Exited, s')
            | (Continue, s') \<Rightarrow> accept_loop es s'))"

datatype startup = Listening | SocketFails | BindFails | ListenFails

definition start :: "startup \<Rightarrow> event list \<Rightarrow> server_state \<Rightarrow> loop_status \<times> server_state" where
  "start su es s =
     (case su of
        Listening \<Rightarrow>
          (case accept_loop es (s \<lparr> listener := Some True, running := True \<rparr>) of
             (Accepting, s') \<Rightarrow> (Accepting, s')
           | (Exited, s') \<Rightarrow> (Exited, stop s'))
      | SocketFails \<Rightarrow> (Exited, stop (report OSError s))
      | BindFails \<Rightarrow> (Exited, stop (report OSError (s \<lparr> listener := Some True \<rparr>)))
      | ListenFails \<Rightarrow> (Exited, stop (report OSError (s \<lparr> listener := Some True \<rparr>))))"

definition shutdown_request :: "event \<Rightarrow> bool" where
  "shutdown_request e \<longleftrightarrow> e = Acceptor KeyboardInterrupt \<or> e = Acceptor Stopped"

section \<open>The client: \<open>FileTransferClient\<close>\<close>

record sock =
  tls_wrapped :: bool
  tcp_connected :: bool
  tls_established :: bool

record stats =
  bytes_sent :: int
  transfer_time :: real
  packet_overhead :: int

record client =
  host :: pystr
  port :: nat
  socket :: "sock option"
  transfer_stats :: stats

definition new_client :: "pystr \<Rightarrow> nat \<Rightarrow> client" where
  "new_client h p =
     \<lparr> host = h, port = p, socket = None,
       transfer_stats = \<lparr> bytes_sent = 0, transfer_time = 0, packet_overhead = 0 \<rparr> \<rparr>"

datatype transport_failure = Refused | TimedOut | NameResolution

definition transport_error :: "transport_failure \<Rightarrow> error" where
  "transport_error f =
     (case f of Refused \<Rightarrow> ConnectionRefusedError | TimedOut \<Rightarrow> TimeoutError
      | NameResolution \<Rightarrow> GaiError)"

datatype plain_outcome = PlainConnected | PlainFails transport_failure

datatype tls_outcome = TlsConnected | TransportFails transport_failure | HandshakeFailed

text \<open>Both connect operations give back a truth value; the exception is printed
  (third component) and goes nowhere else.\<close>

definition connect_plain :: "bool \<Rightarrow> plain_outcome \<Rightarrow> client \<Rightarrow> bool \<times> client \<times> error option" where
  "connect_plain socket_created outcome c =
     (if \<not> socket_created then (False, c, Some OSError)
      else
        (let c1 = c \<lparr> socket := Some \<lparr> tls_wrapped = False, tcp_connected = False,
                                       tls_established = False \<rparr> \<rparr> in
         case outcome of
           PlainConnected \<Rightarrow>
             (True, c \<lparr> socket := Some \<lparr> tls_wrapped = False, tcp_connected = True,
                                        tls_established = False \<rparr> \<rparr>, None)
         | PlainFails f \<Rightarrow> (False, c1, Some (transport_error f))))"

definition connect_tls ::
    "bool \<Rightarrow> bool \<Rightarrow> tls_outcome \<Rightarrow> client \<Rightarrow> bool \<times> client \<times> error option" where
  "connect_tls socket_created context_ok outcome c =
     (if \<not> socket_created then (False, c, Some OSError)
      else if \<not> context_ok then (False, c, Some SSLError)
      else
        (let c1 = c \<lparr> socket := Some \<lparr> tls_wrapped = True, tcp_connected = False,
                                       tls_established = False \<rparr> \<rparr> in
         case outcome of
           TlsConnected \<Rightarrow>
             (True, c \<lparr> socket := Some \<lparr> tls_wrapped = True, tcp_connected = True,
                                        tls_established = True \<rparr> \<rparr>, None)
         | TransportFails f \<Rightarrow> (False, c1, Some (transport_error f))
         | HandshakeFailed \<Rightarrow>
             (False, c \<lparr> socket := Some \<lparr> tls_wrapped = True, tcp_connected = True,
                                         tls_established = False \<rparr> \<rparr>, Some SSLError)))"

text \<open>
  \<open>send_file\<close> sees the local files (a path that exists holds bytes, or cannot be
  read), the clock (\<open>clock k\<close> is what the \<open>k\<close>-th call of \<open>time.time()\<close>
  returns), whether the two \<open>sendall\<close> calls go through, and what \<open>recv(1024)\<close>
  returns. Its calls are recorded in a trace, in program order. When the server never
  replies, \<open>recv\<close> waits for ever and \<open>send_file\<close> does not return.
\<close>

datatype file_node = Readable bytes | Unreadable

record client_env =
  local_files :: "pystr \<rightharpoonup> file_node"
  clock :: "nat \<Rightarrow> real"
  header_sent :: bool
  payload_sent :: bool
  ack :: recv_result

datatype effect =
    Time real
  | SendAll bytes
  | SendAllRaises bytes
  | Recv bytes
  | RecvRaises

record send_result =
  returned :: bool
  client_after :: client
  trace :: "effect list"

text \<open>Reading in text mode turns \<open>\r\n\<close> and \<open>\r\<close> into \<open>\n\<close>.\<close>

fun universal_newlines :: "pystr \<Rightarrow> pystr" where
  "universal_newlines [] = []"
| "universal_newlines [c] = [if c = CHR 0x0D then CHR 0x0A else c]"
| "universal_newlines (c # d # ds) =
     (if c = CHR 0x0D then
        (if d = CHR 0x0A then CHR 0x0A # universal_newlines ds
         else CHR 0x0A # universal_newlines (d # ds))
      else c # universal_newlines (d # ds))"

definition read_text :: "file_node \<Rightarrow> error + pystr" where
  "read_text node =
     (case node of
        Unreadable \<Rightarrow> Inl OSError
      | Readable raw \<Rightarrow>
          if utf8_valid raw then Inr (universal_newlines raw) else Inl UnicodeDecodeError)"

definition make_header :: "pystr \<Rightarrow> nat \<Rightarrow> bytes" where
  "make_header name n = name @ ''|'' @ py_str n @ ''|''"

definition send_file :: "pystr \<Rightarrow> client_env \<Rightarrow> client \<Rightarrow> send_result option" where
  "send_file filepath env c =
     (case socket c of
        None \<Rightarrow> Some \<lparr> returned = False, client_after = c, trace = [] \<rparr>
      | Some sk \<Rightarrow>
          (case local_files env filepath of
             None \<Rightarrow> Some \<lparr> returned = False, client_after = c, trace = [] \<rparr>
           | Some node \<Rightarrow>
               (case read_text node of
                  Inl e \<Rightarrow> Some \<lparr> returned = False, client_after = c, trace = [] \<rparr>
                | Inr content \<Rightarrow>
                    (let fname = basename filepath;
                         fsize = length content;
                         header = make_header fname fsize;
                         start_time = clock env 0
                     in
                     if \<not> (tcp_connected sk \<and> header_sent env) then
                       Some \<lparr> returned = False, client_after = c,
                              trace = [Time start_time, SendAllRaises header] \<rparr>
                     else if \<not> payload_sent env then
                       Some \<lparr> returned = False, client_after = c,
                              trace = [Time start_time, SendAll header,
                                       SendAllRaises content] \<rparr>
                     else
                       (let end_time = clock env 1 in
                        case ack env of
                          Stall \<Rightarrow> None
                        | RecvError \<Rightarrow>
                            Some \<lparr> returned = False, client_after = c,
                                   trace = [Time start_time, SendAll header, SendAll content,
                                            Time end_time, RecvRaises] \<rparr>
                        | Chunk reply \<Rightarrow>
                            (case decode_utf8 reply of
                               Inl e \<Rightarrow>
                                 Some \<lparr> returned = False, client_after = c,
                                        trace = [Time start_time, SendAll header,
                                                 SendAll content, Time end_time,
                                                 Recv reply] \<rparr>
                             | Inr ack_text \<Rightarrow>
                                 Some \<lparr> returned = True,
                                        client_after = c \<lparr> transfer_stats := (transfer_stats c)
                                          \<lparr> bytes_sent := int (length header) + int fsize,
                                            transfer_time := end_time - start_time \<rparr> \<rparr>,
                                        trace = [Time start_time, SendAll header,
                                                 SendAll content, Time end_time,
                                                 Recv reply] \<rparr>))))))"

text \<open>The frame one \<open>send_file\<close> puts on the wire: the header, then the content.\<close>

definition encode_frame :: "pystr \<Rightarrow> bytes \<Rightarrow> bytes" where
  "encode_frame name payload = make_header name (length payload) @ payload"

text \<open>The delimiter of the header, and the value a run of digits has.\<close>

abbreviation (input) bar :: char where
  "bar \<equiv> CHR ''|''"

definition digit_step :: "nat \<Rightarrow> char \<Rightarrow> nat" where
  "digit_step acc c = acc * 10 + (byte c - 48)"

text \<open>What a run of \<open>send_file\<close> handed to \<open>sendall\<close>, in order.\<close>

definition sent_bytes :: "effect list \<Rightarrow> bytes list" where
  "sent_bytes tr = concat (map (\<lambda>e. case e of SendAll b \<Rightarrow> [b] | _ \<Rightarrow> []) tr)"

text \<open>
  A concrete client run, used to illustrate the statements about \<open>send_file\<close>: a
  connected plain client, a file of seven bytes with a Windows line end, a clock that
  reads 10 and then 12, and the reply the server gives (or fails to give).
\<close>

definition demo_client :: client where
  "demo_client =
     (new_client ''localhost'' 5001)
       \<lparr> socket := Some \<lparr> tls_wrapped = False, tcp_connected = True,
                          tls_established = False \<rparr> \<rparr>"

definition demo_result :: send_result where
  "demo_result =
     \<lparr> returned = True,
       client_after = demo_client
         \<lparr> transfer_stats := \<lparr> bytes_sent = 14, transfer_time = 2, packet_overhead = 0 \<rparr> \<rparr>,
       trace = [Time 10, SendAll ''a.txt|6|'', SendAll (''hi'' @ [CHR 0x0A] @ ''you''), Time 12,
                Recv ''ACK''] \<rparr>"

definition demo_failure :: send_result where
  "demo_failure =
     \<lparr> returned = False, client_after = demo_client,
       trace = [Time 10, SendAll ''a.txt|6|'', SendAll (''hi'' @ [CHR 0x0A] @ ''you''), Time 12,
                RecvRaises] \<rparr>"

definition demo_env :: "recv_result \<Rightarrow> client_env" where
  "demo_env reply =
     \<lparr> local_files = [''docs/a.txt'' \<mapsto> Readable (''hi'' @ [CHR 0x0D, CHR 0x0A] @ ''you'')],
       clock = (\<lambda>k. if k = 0 then 10 else 12), header_sent = True, payload_sent = True,
       ack = reply \<rparr>"

section \<open>Facts about the library calls\<close>

lemma index_of_notin: "c \<notin> set xs \<Longrightarrow> index_of c xs = None"
  by (induction xs) auto

lemma index_of_first: "c \<notin> set a \<Longrightarrow> index_of c (a @ c # b) = Some (length a)"
  by (induction a) auto

lemma bytes_find_nat:
  "bytes_find d c (int s) = (case index_of c (drop s d) of None \<Rightarrow> - 1 | Some i \<Rightarrow> int (s + i))"
  by (simp add: bytes_find_def)

lemma bytes_find_zero:
  "bytes_find d c 0 = (case index_of c d of None \<Rightarrow> - 1 | Some i \<Rightarrow> int i)"
  by (simp add: bytes_find_def split: option.splits)

lemma header_end_two:
  assumes "bar \<notin> set name" "bar \<notin> set field"
  shows "header_end (name @ bar # field @ bar # rst) = int (length name + length field + 2)"
proof -
  let ?d = "name @ bar # field @ bar # rst"
  have first: "bytes_find ?d bar 0 = int (length name)"
    using assms(1) by (simp add: bytes_find_zero index_of_first)
  have "bytes_find ?d bar (int (Suc (length name))) = int (Suc (length name) + length field)"
    unfolding bytes_find_nat using assms(2) by (simp add: index_of_first)
  then show ?thesis
    unfolding header_end_def first by (simp add: add.commute)
qed

lemma header_end_one:
  assumes "bar \<notin> set a" "bar \<notin> set b"
  shows "header_end (a @ bar # b) = 0"
proof -
  let ?d = "a @ bar # b"
  have first: "bytes_find ?d bar 0 = int (length a)"
    using assms(1) by (simp add: bytes_find_zero index_of_first)
  have "bytes_find ?d bar (int (Suc (length a))) = - 1"
    unfolding bytes_find_nat using assms(2) by (simp add: index_of_notin)
  then show ?thesis
    unfolding header_end_def first by (simp add: add.commute)
qed

lemma split_on_notin: "sep \<notin> set a \<Longrightarrow> split_on sep a = [a]"
  by (induction a) auto

lemma split_on_first: "sep \<notin> set a \<Longrightarrow> split_on sep (a @ sep # b) = a # split_on sep b"
  by (induction a) auto

lemma split_header:
  "bar \<notin> set name \<Longrightarrow> bar \<notin> set field \<Longrightarrow>
   split_on bar (name @ bar # field @ [bar]) = [name, field, []]"
  by (simp add: split_on_first)

lemma utf8_valid_append: "utf8_valid a \<Longrightarrow> utf8_valid b \<Longrightarrow> utf8_valid (a @ b)"
proof (induction a rule: utf8_valid.induct)
  case 1
  then show ?case by simp
next
  case (2 a bs)
  then show ?case by simp
qed

lemma utf8_valid_ascii: "\<forall>c\<in>set s. byte c < 128 \<Longrightarrow> utf8_valid s"
  by (induction s) (simp_all add: seq_len_def seq_ok_def)

lemma byte_char_of: "k < 256 \<Longrightarrow> byte (char_of k) = k"
  by (simp add: byte_def)

lemma py_str_digits: "\<forall>c\<in>set (py_str n). 48 \<le> byte c \<and> byte c \<le> 57"
proof (induction n rule: py_str.induct)
  case (1 n)
  show ?case
  proof (cases "n < 10")
    case True
    then show ?thesis by (simp add: py_str.simps [of n] byte_char_of)
  next
    case False
    have "n mod 10 < 10" by simp
    then have "byte (char_of (48 + n mod 10)) = 48 + n mod 10"
      by (intro byte_char_of) linarith
    with False 1 show ?thesis by (simp add: py_str.simps [of n])
  qed
qed

lemma py_str_nonempty: "py_str n \<noteq> []"
  by (simp add: py_str.simps [of n])

lemma py_str_no_bar: "bar \<notin> set (py_str n)"
  using py_str_digits [of n] by (auto simp: byte_def)

lemma py_str_ascii: "\<forall>c\<in>set (py_str n). byte c < 128"
  using py_str_digits [of n] by auto


lemma digits_value_digits:
  "\<forall>c\<in>set ds. 48 \<le> byte c \<and> byte c \<le> 57 \<Longrightarrow>
   digits_value False acc ds = Some (foldl digit_step acc ds)"
proof (induction ds arbitrary: acc)
  case Nil
  then show ?case by simp
next
  case (Cons c ds)
  then have "c \<noteq> CHR ''_''" by (auto simp: byte_def)
  with Cons show ?case by (simp add: digit_val_def digit_step_def)
qed

lemma unsigned_int_digits:
  "ds \<noteq> [] \<Longrightarrow> \<forall>c\<in>set ds. 48 \<le> byte c \<and> byte c \<le> 57 \<Longrightarrow>
   unsigned_int ds = Some (foldl digit_step 0 ds)"
  by (cases ds) (simp_all add: unsigned_int_def digit_val_def digits_value_digits digit_step_def)

lemma foldl_py_str: "foldl digit_step 0 (py_str n) = n"
proof (induction n rule: py_str.induct)
  case (1 n)
  show ?case
  proof (cases "n < 10")
    case True
    then show ?thesis by (simp add: py_str.simps [of n] digit_step_def byte_char_of)
  next
    case False
    have "n mod 10 < 10" by simp
    then have "byte (char_of (48 + n mod 10)) = 48 + n mod 10"
      by (intro byte_char_of) linarith
    with False 1 show ?thesis by (simp add: py_str.simps [of n] digit_step_def)
  qed
qed

lemma strip_no_space: "\<forall>c\<in>set s. \<not> is_space c \<Longrightarrow> strip s = s"
proof -
  assume a: "\<forall>c\<in>set s. \<not> is_space c"
  have d: "\<And>xs. \<forall>c\<in>set xs. \<not> is_space c \<Longrightarrow> dropWhile is_space xs = xs"
    by (case_tac xs) auto
  from a show ?thesis by (simp add: strip_def d)
qed

lemma py_int_py_str: "py_int (py_str n) = Inr (int n)"
proof -
  have dig: "\<forall>c\<in>set (py_str n). 48 \<le> byte c \<and> byte c \<le> 57" by (rule py_str_digits)
  then have "\<forall>c\<in>set (py_str n). \<not> is_space c" by (auto simp: is_space_def)
  then have s: "strip (py_str n) = py_str n" by (rule strip_no_space)
  obtain c cs where cs: "py_str n = c # cs" using py_str_nonempty [of n] by (cases "py_str n") auto
  with dig have "48 \<le> byte c \<and> byte c \<le> 57" by simp
  then have ne: "c \<noteq> CHR ''-''" "c \<noteq> CHR ''+''" by (auto simp: byte_def)
  have "unsigned_int (c # cs) = Some n"
    using unsigned_int_digits [of "py_str n"] dig cs foldl_py_str [of n] by simp
  with s cs ne show ?thesis by (simp add: py_int_def)
qed

section \<open>Facts about the receive loop\<close>

lemma count_lt2_cases:
  assumes "count_list d bar < 2"
  shows "bar \<notin> set d \<or> (\<exists>a b. d = a @ bar # b \<and> bar \<notin> set a \<and> bar \<notin> set b)"
proof (cases "bar \<in> set d")
  case False
  then show ?thesis by simp
next
  case True
  then obtain a b where ab: "d = a @ bar # b" "bar \<notin> set a"
    by (meson split_list_first)
  with assms have "count_list b bar = 0" by simp
  then have "bar \<notin> set b" by (simp add: count_list_0_iff)
  with ab show ?thesis by blast
qed

lemma process_header_received: "header_received st \<Longrightarrow> process_header st = Inr st"
  by (simp add: process_header_def)

lemma process_header_incomplete:
  assumes "\<not> header_received st" "count_list (data st) bar < 2"
  shows "process_header st = Inr st"
proof -
  from count_lt2_cases [OF assms(2)] show ?thesis
  proof
    assume "bar \<notin> set (data st)"
    then show ?thesis by (simp add: process_header_def)
  next
    assume "\<exists>a b. data st = a @ bar # b \<and> bar \<notin> set a \<and> bar \<notin> set b"
    then obtain a b where ab: "data st = a @ bar # b" "bar \<notin> set a" "bar \<notin> set b" by blast
    then have "header_end (data st) = 0" by (simp add: header_end_one)
    then show ?thesis
      by (simp add: process_header_def slice_to_def decode_utf8_def)
  qed
qed

lemma slice_to_int: "slice_to xs (int k) = take k xs"
  by (simp add: slice_to_def)

lemma slice_from_int: "slice_from xs (int k) = drop k xs"
  by (simp add: slice_from_def)

lemma process_header_complete:
  assumes "\<not> header_received st" "bar \<notin> set name" "bar \<notin> set field"
    and "data st = name @ bar # field @ bar # rst"
  shows "process_header st =
     (if utf8_valid (name @ bar # field @ [bar]) then
        (case py_int field of
           Inl e \<Rightarrow> Inl e
         | Inr n \<Rightarrow> Inr (st \<lparr> filename := name, filesize := n, header_received := True,
                             data := rst \<rparr>))
      else Inl UnicodeDecodeError)"
proof -
  let ?H = "name @ bar # field @ [bar]"
  have d: "data st = ?H @ rst" using assms(4) by simp
  have he: "header_end (data st) = int (length ?H)"
    using assms by (simp add: header_end_two)
  have "slice_to (?H @ rst) (int (length ?H)) = ?H"
    unfolding slice_to_int by simp
  with he d have tk: "slice_to (data st) (header_end (data st)) = ?H" by simp
  have "slice_from (?H @ rst) (int (length ?H)) = rst"
    unfolding slice_from_int by simp
  with he d have dr: "slice_from (data st) (header_end (data st)) = rst" by simp
  have "bar \<in> set (data st)" using assms(4) by simp
  with assms(1,2,3) show ?thesis
    unfolding process_header_def tk dr
    by (simp add: decode_utf8_def split_header split: sum.splits)
qed

lemma recv_loop_payload:
  assumes "header_received st" "\<forall>c\<in>set cs. c \<noteq> []"
    and "int (length (data st)) < filesize st"
    and "filesize st \<le> int (length (data st @ concat cs))"
  shows "\<exists>d sfx. recv_loop (map Chunk cs @ evs) st = Some (Inr (st \<lparr> data := d \<rparr>)) \<and>
           data st @ concat cs = d @ sfx \<and> filesize st \<le> int (length d)"
  using assms
proof (induction cs arbitrary: st)
  case Nil
  then show ?case by simp
next
  case (Cons c cs)
  let ?st1 = "st \<lparr> data := data st @ c \<rparr>"
  have ph: "process_header ?st1 = Inr ?st1"
    using Cons.prems(1) by (simp add: process_header_received)
  have cne: "c \<noteq> []" using Cons.prems(2) by simp
  show ?case
  proof (cases "filesize st \<le> int (length (data st @ c))")
    case True
    with ph cne Cons.prems(1) have "recv_loop (map Chunk (c # cs) @ evs) st = Some (Inr ?st1)"
      by simp
    with True show ?thesis by auto
  next
    case False
    with ph cne have step: "recv_loop (map Chunk (c # cs) @ evs) st = recv_loop (map Chunk cs @ evs) ?st1"
      by simp
    have "\<exists>d sfx. recv_loop (map Chunk cs @ evs) ?st1 = Some (Inr (?st1 \<lparr> data := d \<rparr>)) \<and>
           data ?st1 @ concat cs = d @ sfx \<and> filesize ?st1 \<le> int (length d)"
      using Cons.prems False by (intro Cons.IH) simp_all
    with step show ?thesis by simp
  qed
qed

lemma recv_loop_header:
  assumes "\<not> header_received st" "bar \<notin> set name" "bar \<notin> set field"
    and "length (data st) < length name + length field + 2"
    and "\<forall>c\<in>set cs. c \<noteq> []"
    and "data st @ concat cs = name @ bar # field @ bar # rest"
  shows "\<exists>pre cs'. rest = pre @ concat cs' \<and> (\<forall>c\<in>set cs'. c \<noteq> []) \<and>
           recv_loop (map Chunk cs @ evs) st =
             (case process_header (st \<lparr> data := name @ bar # field @ bar # pre \<rparr>) of
                Inl e \<Rightarrow> Some (Inl e)
              | Inr st' \<Rightarrow>
                  if header_received st' \<and> filesize st' \<le> int (length (data st'))
                  then Some (Inr st')
                  else recv_loop (map Chunk cs' @ evs) st')"
  using assms(1,4,5,6)
proof (induction cs arbitrary: st)
  case Nil
  then show ?case by simp
next
  case (Cons c cs)
  let ?H = "name @ bar # field @ [bar]"
  let ?st1 = "st \<lparr> data := data st @ c \<rparr>"
  have cne: "c \<noteq> []" using Cons.prems(3) by simp
  have eq: "(data st @ c) @ concat cs = ?H @ rest" using Cons.prems(4) by simp
  then obtain us where us: "data st @ c = ?H @ us \<and> us @ concat cs = rest \<or>
      (data st @ c) @ us = ?H \<and> concat cs = us @ rest"
    unfolding append_eq_append_conv2 by blast
  show ?case
  proof (cases "length ?H \<le> length (data st @ c)")
    case True
    have "\<exists>pre. data st @ c = ?H @ pre \<and> rest = pre @ concat cs"
    proof -
      from us show ?thesis
      proof
        assume "data st @ c = ?H @ us \<and> us @ concat cs = rest"
        then show ?thesis by blast
      next
        assume b: "(data st @ c) @ us = ?H \<and> concat cs = us @ rest"
        then have "length (data st @ c) + length us = length ?H"
          by (metis length_append)
        with True have "length us = 0" by arith
        then have "us = []" by simp
        with b show ?thesis by simp
      qed
    qed
    then obtain pre where pre: "data st @ c = ?H @ pre" "rest = pre @ concat cs"
      by blast
    have "recv_loop (map Chunk (c # cs) @ evs) st =
        (case process_header (st \<lparr> data := name @ bar # field @ bar # pre \<rparr>) of
                Inl e \<Rightarrow> Some (Inl e)
              | Inr st' \<Rightarrow>
                  if header_received st' \<and> filesize st' \<le> int (length (data st'))
                  then Some (Inr st')
                  else recv_loop (map Chunk cs @ evs) st')"
      using cne pre(1) by simp
    with pre(2) Cons.prems(3) show ?thesis by (intro exI [of _ pre] exI [of _ cs]) simp
  next
    case False
    have pf: "(data st @ c) @ us = ?H \<and> us \<noteq> []"
    proof -
      from us show ?thesis
      proof
        assume "data st @ c = ?H @ us \<and> us @ concat cs = rest"
        then have "length (data st @ c) = length ?H + length us"
          by (metis length_append)
        with False show ?thesis by simp
      next
        assume b: "(data st @ c) @ us = ?H \<and> concat cs = us @ rest"
        then have "length (data st @ c) + length us = length ?H"
          by (metis length_append)
        with False have "length us \<noteq> 0" by arith
        then have "us \<noteq> []" by simp
        with b show ?thesis by simp
      qed
    qed
    then have "butlast ((data st @ c) @ us) = butlast ?H" by simp
    then have "(data st @ c) @ butlast us = name @ bar # field"
      using pf by (simp add: butlast_append)
    then have "count_list (data st @ c) bar + count_list (butlast us) bar = count_list (name @ bar # field) bar"
      by (metis count_list_append)
    also have "\<dots> = 1" using assms(2,3) by simp
    finally have "count_list (data ?st1) bar < 2" by simp
    with Cons.prems(1) have ph: "process_header ?st1 = Inr ?st1"
      by (intro process_header_incomplete) simp_all
    with cne Cons.prems(1)
    have step: "recv_loop (map Chunk (c # cs) @ evs) st = recv_loop (map Chunk cs @ evs) ?st1"
      by simp
    have "\<exists>pre cs'. rest = pre @ concat cs' \<and> (\<forall>c\<in>set cs'. c \<noteq> []) \<and>
           recv_loop (map Chunk cs @ evs) ?st1 =
             (case process_header (?st1 \<lparr> data := name @ bar # field @ bar # pre \<rparr>) of
                Inl e \<Rightarrow> Some (Inl e)
              | Inr st' \<Rightarrow>
                  if header_received st' \<and> filesize st' \<le> int (length (data st'))
                  then Some (Inr st')
                  else recv_loop (map Chunk cs' @ evs) st')"
      using Cons.prems False by (intro Cons.IH) simp_all
    with step show ?thesis by simp
  qed
qed

lemma recv_loop_frame:
  assumes "bar \<notin> set name" "bar \<notin> set field"
    and "utf8_valid (name @ bar # field @ [bar])"
    and "py_int field = Inr n"
    and "\<forall>c\<in>set cs. c \<noteq> []"
    and "concat cs = name @ bar # field @ bar # rest"
    and "n \<le> int (length rest)"
  shows "\<exists>d sfx. recv_loop (map Chunk cs @ evs) initial_state =
            Some (Inr \<lparr> data = d, header_received = True, filename = name, filesize = n \<rparr>) \<and>
          rest = d @ sfx \<and> n \<le> int (length d)"
proof -
  let ?st0 = "initial_state"
  have "\<exists>pre cs'. rest = pre @ concat cs' \<and> (\<forall>c\<in>set cs'. c \<noteq> []) \<and>
           recv_loop (map Chunk cs @ evs) ?st0 =
             (case process_header (?st0 \<lparr> data := name @ bar # field @ bar # pre \<rparr>) of
                Inl e \<Rightarrow> Some (Inl e)
              | Inr st' \<Rightarrow>
                  if header_received st' \<and> filesize st' \<le> int (length (data st'))
                  then Some (Inr st')
                  else recv_loop (map Chunk cs' @ evs) st')"
    using assms(1,2,5,6) by (intro recv_loop_header) (simp_all add: initial_state_def)
  then obtain pre cs' where pc: "rest = pre @ concat cs'" "\<forall>c\<in>set cs'. c \<noteq> []"
    and loop: "recv_loop (map Chunk cs @ evs) ?st0 =
             (case process_header (?st0 \<lparr> data := name @ bar # field @ bar # pre \<rparr>) of
                Inl e \<Rightarrow> Some (Inl e)
              | Inr st' \<Rightarrow>
                  if header_received st' \<and> filesize st' \<le> int (length (data st'))
                  then Some (Inr st')
                  else recv_loop (map Chunk cs' @ evs) st')"
    by blast
  let ?st1 = "\<lparr> data = pre, header_received = True, filename = name, filesize = n \<rparr>"
  have ph: "process_header (?st0 \<lparr> data := name @ bar # field @ bar # pre \<rparr>) = Inr ?st1"
    using assms(1,2,3,4)
    by (subst process_header_complete [where name = name and field = field and rst = pre])
       (simp_all add: initial_state_def)
  show ?thesis
  proof (cases "n \<le> int (length pre)")
    case True
    with loop ph have "recv_loop (map Chunk cs @ evs) ?st0 = Some (Inr ?st1)" by simp
    with True pc(1) show ?thesis by blast
  next
    case False
    with loop ph have l2: "recv_loop (map Chunk cs @ evs) ?st0 = recv_loop (map Chunk cs' @ evs) ?st1"
      by simp
    have "\<exists>d sfx. recv_loop (map Chunk cs' @ evs) ?st1 = Some (Inr (?st1 \<lparr> data := d \<rparr>)) \<and>
           data ?st1 @ concat cs' = d @ sfx \<and> filesize ?st1 \<le> int (length d)"
      using False pc assms(7) by (intro recv_loop_payload) simp_all
    with l2 pc(1) show ?thesis by simp
  qed
qed

lemma recv_loop_bad_header:
  assumes "bar \<notin> set name" "bar \<notin> set field"
    and "process_header (initial_state \<lparr> data := name @ bar # field @ [bar] \<rparr>) = Inl e"
    and "\<forall>c\<in>set cs. c \<noteq> []"
    and "concat cs = name @ bar # field @ bar # rest"
  shows "recv_loop (map Chunk cs @ evs) initial_state = Some (Inl e)"
proof -
  let ?st0 = "initial_state"
  have "\<exists>pre cs'. rest = pre @ concat cs' \<and> (\<forall>c\<in>set cs'. c \<noteq> []) \<and>
           recv_loop (map Chunk cs @ evs) ?st0 =
             (case process_header (?st0 \<lparr> data := name @ bar # field @ bar # pre \<rparr>) of
                Inl e \<Rightarrow> Some (Inl e)
              | Inr st' \<Rightarrow>
                  if header_received st' \<and> filesize st' \<le> int (length (data st'))
                  then Some (Inr st')
                  else recv_loop (map Chunk cs' @ evs) st')"
    using assms(1,2,4,5) by (intro recv_loop_header) (simp_all add: initial_state_def)
  then obtain pre cs' where
    loop: "recv_loop (map Chunk cs @ evs) ?st0 =
             (case process_header (?st0 \<lparr> data := name @ bar # field @ bar # pre \<rparr>) of
                Inl e \<Rightarrow> Some (Inl e)
              | Inr st' \<Rightarrow>
                  if header_received st' \<and> filesize st' \<le> int (length (data st'))
                  then Some (Inr st')
                  else recv_loop (map Chunk cs' @ evs) st')"
    by blast
  have a: "process_header (?st0 \<lparr> data := name @ bar # field @ bar # pre \<rparr>) =
     (if utf8_valid (name @ bar # field @ [bar]) then
        (case py_int field of
           Inl e \<Rightarrow> Inl e
         | Inr n \<Rightarrow> Inr (?st0 \<lparr> data := name @ bar # field @ bar # pre \<rparr>
                            \<lparr> filename := name, filesize := n, header_received := True,
                             data := pre \<rparr>))
      else Inl UnicodeDecodeError)"
    using assms(1,2) by (intro process_header_complete) (simp_all add: initial_state_def)
  have b: "process_header (?st0 \<lparr> data := name @ bar # field @ [bar] \<rparr>) =
     (if utf8_valid (name @ bar # field @ [bar]) then
        (case py_int field of
           Inl e \<Rightarrow> Inl e
         | Inr n \<Rightarrow> Inr (?st0 \<lparr> data := name @ bar # field @ [bar] \<rparr>
                            \<lparr> filename := name, filesize := n, header_received := True,
                             data := [] \<rparr>))
      else Inl UnicodeDecodeError)"
    using assms(1,2) by (intro process_header_complete) (simp_all add: initial_state_def)
  from assms(3) b have "process_header (?st0 \<lparr> data := name @ bar # field @ bar # pre \<rparr>) = Inl e"
    unfolding a by (simp split: if_splits sum.splits)
  with loop show ?thesis by simp
qed

lemma count_list_append_le: "count_list xs x \<le> count_list (xs @ ys) x"
  by simp

lemma recv_loop_no_header:
  assumes "\<not> header_received st" "count_list (data st @ concat cs) bar < 2"
  shows "\<exists>st'. recv_loop (map Chunk cs) st = Some (Inr st') \<and> \<not> header_received st'"
  using assms
proof (induction cs arbitrary: st)
  case Nil
  then show ?case by simp
next
  case (Cons c cs)
  let ?st1 = "st \<lparr> data := data st @ c \<rparr>"
  have "count_list (data st @ c) bar \<le> count_list ((data st @ c) @ concat cs) bar"
    by (rule count_list_append_le)
  with Cons.prems(2) have lt: "count_list (data ?st1) bar < 2" by simp
  with Cons.prems(1) have ph: "process_header ?st1 = Inr ?st1"
    by (intro process_header_incomplete) simp_all
  show ?case
  proof (cases "c = []")
    case True
    with Cons.prems(1) show ?thesis by simp
  next
    case False
    with ph Cons.prems(1)
    have step: "recv_loop (map Chunk (c # cs)) st = recv_loop (map Chunk cs) ?st1" by simp
    have "\<exists>st'. recv_loop (map Chunk cs) ?st1 = Some (Inr st') \<and> \<not> header_received st'"
      using Cons.prems by (intro Cons.IH) simp_all
    with step show ?thesis by simp
  qed
qed

lemma name_header_valid:
  assumes "utf8_valid name"
  shows "utf8_valid (name @ bar # py_str n @ [bar])"
proof -
  have "utf8_valid (bar # py_str n @ [bar])"
    using py_str_ascii [of n] by (intro utf8_valid_ascii) (auto simp: byte_def)
  with assms show ?thesis by (rule utf8_valid_append)
qed

text \<open>
  Two kinds of header the handler turns down. When the peer closes after bytes that hold
  fewer than two delimiters, no header is found: nothing is stored, nothing is sent and
  no error is raised. When the text between the first two delimiters is ASCII and
  \<open>int\<close> does not accept it, the handler ends with \<open>ValueError\<close>, and stores and
  sends nothing.
\<close>

lemma malformed_header_stores_nothing:
  "(count_list (concat chunks) CHR ''|'' < 2 \<and> incoming env = map Chunk chunks \<longrightarrow>
      handle_client tls dir fs env =
        Some \<lparr> files_after = fs, sent = [], closed = True, caught = None \<rparr>) \<and>
   (CHR ''|'' \<notin> set name \<and> CHR ''|'' \<notin> set field \<and>
    utf8_valid (name @ ''|'' @ field @ ''|'') \<and> (\<forall>c\<in>set field. byte c < 128) \<and>
    py_int field = Inl ValueError \<and>
    (\<forall>c\<in>set chunks. c \<noteq> []) \<and> concat chunks = name @ ''|'' @ field @ ''|'' @ rest \<and>
    incoming env = map Chunk chunks @ later \<longrightarrow>
      handle_client tls dir fs env =
        Some \<lparr> files_after = fs, sent = [], closed = True, caught = Some ValueError \<rparr>)"
proof (intro conjI impI)
  assume a: "count_list (concat chunks) CHR ''|'' < 2 \<and> incoming env = map Chunk chunks"
  have "\<exists>st'. recv_loop (map Chunk chunks) initial_state = Some (Inr st') \<and> \<not> header_received st'"
    using a by (intro recv_loop_no_header) (simp_all add: initial_state_def)
  then obtain st' where "recv_loop (incoming env) initial_state = Some (Inr st')" "\<not> header_received st'"
    using a by auto
  then show "handle_client tls dir fs env =
        Some \<lparr> files_after = fs, sent = [], closed = True, caught = None \<rparr>"
    by (simp add: handle_client_def handle_client_try_def)
next
  assume b: "CHR ''|'' \<notin> set name \<and> CHR ''|'' \<notin> set field \<and>
    utf8_valid (name @ ''|'' @ field @ ''|'') \<and> (\<forall>c\<in>set field. byte c < 128) \<and>
    py_int field = Inl ValueError \<and>
    (\<forall>c\<in>set chunks. c \<noteq> []) \<and> concat chunks = name @ ''|'' @ field @ ''|'' @ rest \<and>
    incoming env = map Chunk chunks @ later"
  have "process_header (initial_state \<lparr> data := name @ bar # field @ bar # [] \<rparr>) =
     (if utf8_valid (name @ bar # field @ [bar]) then
        (case py_int field of
           Inl e \<Rightarrow> Inl e
         | Inr n \<Rightarrow> Inr (initial_state \<lparr> data := name @ bar # field @ bar # [] \<rparr>
                            \<lparr> filename := name, filesize := n, header_received := True,
                             data := [] \<rparr>))
      else Inl UnicodeDecodeError)"
    using b by (intro process_header_complete) (simp_all add: initial_state_def)
  with b have ph: "process_header (initial_state \<lparr> data := name @ bar # field @ [bar] \<rparr>) = Inl ValueError"
    by simp
  have "recv_loop (map Chunk chunks @ later) initial_state = Some (Inl ValueError)"
    using b ph by (intro recv_loop_bad_header [where name = name and field = field and rest = rest])
      simp_all
  with b show "handle_client tls dir fs env =
        Some \<lparr> files_after = fs, sent = [], closed = True, caught = Some ValueError \<rparr>"
    by (simp add: handle_client_def handle_client_try_def)
qed

lemma malformed_header_example:
  "handle_client False ''received_files'' Map.empty
     \<lparr> incoming = map Chunk [''abc'', ''|12''], disk = WriteOk, ack_delivered = True \<rparr> =
     Some \<lparr> files_after = Map.empty, sent = [], closed = True, caught = None \<rparr> \<and>
   py_int ''1x'' = Inl ValueError \<and>
   handle_client False ''received_files'' Map.empty
     \<lparr> incoming = map Chunk [''a|1'', ''x|hello''] @ [], disk = WriteOk, ack_delivered = True \<rparr> =
     Some \<lparr> files_after = Map.empty, sent = [], closed = True, caught = Some ValueError \<rparr>"
proof -
  let ?e1 = "\<lparr> incoming = map Chunk [''abc'', ''|12''], disk = WriteOk, ack_delivered = True \<rparr>"
  let ?e2 = "\<lparr> incoming = map Chunk [''a|1'', ''x|hello''] @ [], disk = WriteOk,
                ack_delivered = True \<rparr>"
  have p: "py_int ''1x'' = Inl ValueError"
    by (simp add: py_int_def strip_def is_space_def unsigned_int_def digit_val_def byte_def)
  have h1: "count_list (concat [''abc'', ''|12'']) CHR ''|'' < 2 \<and>
            incoming ?e1 = map Chunk [''abc'', ''|12'']"
    by simp
  have h2: "CHR ''|'' \<notin> set ''a'' \<and> CHR ''|'' \<notin> set ''1x'' \<and>
    utf8_valid (''a'' @ ''|'' @ ''1x'' @ ''|'') \<and> (\<forall>c\<in>set ''1x''. byte c < 128) \<and>
    py_int ''1x'' = Inl ValueError \<and>
    (\<forall>c\<in>set [''a|1'', ''x|hello'']. c \<noteq> []) \<and>
    concat [''a|1'', ''x|hello''] = ''a'' @ ''|'' @ ''1x'' @ ''|'' @ ''hello'' \<and>
    incoming ?e2 = map Chunk [''a|1'', ''x|hello''] @ []"
    using p by (simp add: seq_len_def seq_ok_def byte_def)
  have t1: "handle_client False ''received_files'' Map.empty ?e1 =
        Some \<lparr> files_after = Map.empty, sent = [], closed = True, caught = None \<rparr>"
    using malformed_header_stores_nothing
      [where chunks = "[''abc'', ''|12'']" and env = ?e1 and tls = False
         and dir = "''received_files''" and fs = Map.empty]
      h1 by blast
  have t2: "handle_client False ''received_files'' Map.empty ?e2 =
        Some \<lparr> files_after = Map.empty, sent = [], closed = True, caught = Some ValueError \<rparr>"
    using malformed_header_stores_nothing
      [where name = "''a''" and field = "''1x''" and chunks = "[''a|1'', ''x|hello'']"
         and rest = "''hello''" and env = ?e2 and later = "[]" and tls = False
         and dir = "''received_files''" and fs = Map.empty]
      h2 by blast
  from t1 t2 p show ?thesis by blast
qed

lemma stored_path:
  "path_join ''received_files'' (protocol_tag tls @ ''_'' @ name) =
     ''received_files/'' @ (if tls then ''TLS_'' else ''TCP_'') @ name"
  by (simp add: path_join_def protocol_tag_def)

section \<open>Facts about the accept loop\<close>

lemma run_handler_acceptor:
  "running (run_handler c env s) = running s \<and> listener (run_handler c env s) = listener s \<and>
   handlers (run_handler c env s) = handlers s"
  by (simp add: run_handler_def split: option.splits)

lemma recv_loop_returns: "Stall \<notin> set evs \<Longrightarrow> \<exists>x. recv_loop evs st = Some x"
proof (induction evs st rule: recv_loop.induct)
  case (4 chunk rest st)
  then show ?case by (auto split: sum.splits)
qed simp_all

lemma handle_client_returns:
  "Stall \<notin> set (incoming env) \<Longrightarrow> \<exists>r. handle_client tls dir fs env = Some r"
proof -
  assume "Stall \<notin> set (incoming env)"
  then obtain x where "recv_loop (incoming env) initial_state = Some x"
    using recv_loop_returns by blast
  then show ?thesis
    by (cases x) (simp_all add: handle_client_def handle_client_try_def)
qed

lemma handle_client_closed: "handle_client tls dir fs env = Some r \<Longrightarrow> closed r"
  by (auto simp: handle_client_def)

lemma accept_once_continues:
  assumes "running s" "r \<noteq> KeyboardInterrupt" "r \<noteq> Stopped"
  shows "fst (accept_once r s) = Continue \<and> running (snd (accept_once r s)) \<and>
         listener (snd (accept_once r s)) = listener s"
  using assms by (cases r) (simp_all add: accept_once_def report_def Let_def)

lemma accept_loop_append:
  assumes "running s" "\<forall>e\<in>set es. \<not> shutdown_request e"
  shows "accept_loop (es @ es') s = accept_loop es' (snd (accept_loop es s)) \<and>
         fst (accept_loop es s) = Accepting \<and> running (snd (accept_loop es s)) \<and>
         listener (snd (accept_loop es s)) = listener s"
  using assms
proof (induction es arbitrary: s)
  case Nil
  then show ?case by simp
next
  case (Cons e es)
  show ?case
  proof (cases e)
    case (Handler c env)
    have "running (run_handler c env s)" "listener (run_handler c env s) = listener s"
      using Cons.prems(1) by (simp_all add: run_handler_acceptor)
    with Cons.IH [of "run_handler c env s"] Cons.prems(2) Handler show ?thesis by simp
  next
    case (Acceptor r)
    with Cons.prems(2) have nr: "r \<noteq> KeyboardInterrupt" "r \<noteq> Stopped"
      by (auto simp: shutdown_request_def)
    obtain ctl s' where st: "accept_once r s = (ctl, s')" by (cases "accept_once r s")
    with accept_once_continues [OF Cons.prems(1) nr]
    have k: "ctl = Continue" "running s'" "listener s' = listener s" by simp_all
    with Cons.IH [of s'] Cons.prems Acceptor st show ?thesis by simp
  qed
qed

section \<open>Facts about \<open>send_file\<close>\<close>

lemma send_file_success:
  assumes "send_file path env c = Some r" and "returned r"
  shows "\<exists>sk raw reply. socket c = Some sk \<and> local_files env path = Some (Readable raw) \<and>
     utf8_valid raw \<and> ack env = Chunk reply \<and>
     trace r =
       [Time (clock env 0),
        SendAll (make_header (basename path) (length (universal_newlines raw))),
        SendAll (universal_newlines raw), Time (clock env 1), Recv reply] \<and>
     client_after r =
       c \<lparr> transfer_stats := (transfer_stats c)
           \<lparr> bytes_sent := int (length (make_header (basename path)
                                 (length (universal_newlines raw)))) +
                            int (length (universal_newlines raw)),
             transfer_time := clock env 1 - clock env 0 \<rparr> \<rparr>"
  using assms unfolding send_file_def read_text_def Let_def
  by (auto split: option.splits sum.splits file_node.splits recv_result.splits if_splits)

lemma send_file_failure:
  assumes "send_file path env c = Some r" and "\<not> returned r"
  shows "client_after r = c"
  using assms unfolding send_file_def read_text_def Let_def
  by (auto split: option.splits sum.splits file_node.splits recv_result.splits if_splits)

lemma py_str_6: "py_str (Suc (Suc (Suc (Suc (Suc (Suc 0)))))) = ''6''"
  by code_simp

lemma send_file_demo:
  "send_file ''docs/a.txt'' (demo_env (Chunk ''ACK'')) demo_client = Some demo_result"
  by (simp add: send_file_def read_text_def demo_env_def demo_client_def new_client_def
      demo_result_def make_header_def basename_def decode_utf8_def seq_len_def seq_ok_def
      byte_def py_str_6)

lemma send_file_demo_no_reply:
  "send_file ''docs/a.txt'' (demo_env RecvError) demo_client = Some demo_failure"
  by (simp add: send_file_def read_text_def demo_env_def demo_client_def new_client_def
      demo_failure_def make_header_def basename_def decode_utf8_def seq_len_def seq_ok_def
      byte_def py_str_6)

section \<open>The claims\<close>

text \<open>
  C1. A client sends a valid header declaring 10 bytes, delivers 5 and closes. The claim
  is that the handler then fails, stores no file and sends no acknowledgement. The
  handler does the opposite: it stores the 5 bytes it has under the declared name and
  sends the acknowledgement of a successful reception.
\<close>

theorem C1_truncated_transfer_is_persisted:
  "handle_client False ''received_files'' Map.empty
     \<lparr> incoming = [Chunk ''a.txt|10|hello''], disk = WriteOk, ack_delivered = True \<rparr> =
   Some \<lparr> files_after = [''received_files/TCP_a.txt'' \<mapsto> ''hello''],
     sent = [''ACK: Arquivo recebido com sucesso!''], closed = True, caught = None \<rparr>"
  by (simp add: handle_client_def handle_client_try_def initial_state_def process_header_def
     header_end_def bytes_find_def decode_utf8_def seq_len_def seq_ok_def byte_def slice_to_def
     slice_from_def py_int_def strip_def is_space_def unsigned_int_def digit_val_def
     path_join_def protocol_tag_def write_file_def ack_message_def)

text \<open>
  C2. For every name without the delimiter and every payload, however the frame
  \<open>name|size|payload\<close> is cut into non-empty chunks, the receive loop ends with the
  name, the length of the payload and the payload itself.
\<close>

theorem C2_decoding_round_trip:
  assumes "CHR ''|'' \<notin> set name" and "utf8_valid name"
    and "\<forall>c\<in>set chunks. c \<noteq> []"
    and "concat chunks = encode_frame name payload"
  shows "recv_loop (map Chunk chunks) initial_state =
     Some (Inr \<lparr> data = payload, header_received = True, filename = name,
           filesize = int (length payload) \<rparr>)"
proof -
  let ?field = "py_str (length payload)"
  have frame: "concat chunks = name @ bar # ?field @ bar # payload"
    using assms(4) by (simp add: encode_frame_def make_header_def)
  have "\<exists>d sfx. recv_loop (map Chunk chunks @ []) initial_state =
            Some (Inr \<lparr> data = d, header_received = True, filename = name,
                  filesize = int (length payload) \<rparr>) \<and>
          payload = d @ sfx \<and> int (length payload) \<le> int (length d)"
    using assms(1,3) frame
    by (intro recv_loop_frame [where field = ?field])
       (simp_all add: py_str_no_bar py_int_py_str name_header_valid assms(2))
  then obtain d sfx where r: "recv_loop (map Chunk chunks) initial_state =
            Some (Inr \<lparr> data = d, header_received = True, filename = name,
                  filesize = int (length payload) \<rparr>)"
     and p: "payload = d @ sfx" "int (length payload) \<le> int (length d)"
    by auto
  from p have "sfx = []" by simp
  with p(1) r show ?thesis by simp
qed

text \<open>The frame for \<open>a.txt\<close> and \<open>hello\<close>, cut inside the name, inside the header
  and inside the payload.\<close>

theorem C2_decoding_round_trip_witness:
  "CHR ''|'' \<notin> set ''a.txt'' \<and> utf8_valid ''a.txt'' \<and>
   concat [''a.t'', ''xt|'', ''5'', ''|he'', ''llo''] = encode_frame ''a.txt'' ''hello'' \<and>
   recv_loop (map Chunk [''a.t'', ''xt|'', ''5'', ''|he'', ''llo'']) initial_state =
     Some (Inr \<lparr> data = ''hello'', header_received = True, filename = ''a.txt'', filesize = 5 \<rparr>)"
proof -
  have a: "CHR ''|'' \<notin> set ''a.txt''" by simp
  have b: "utf8_valid ''a.txt''" by (simp add: seq_len_def seq_ok_def byte_def)
  have c: "\<forall>c\<in>set [''a.t'', ''xt|'', ''5'', ''|he'', ''llo'']. c \<noteq> []" by simp
  have d: "concat [''a.t'', ''xt|'', ''5'', ''|he'', ''llo''] = encode_frame ''a.txt'' ''hello''"
    by code_simp
  from C2_decoding_round_trip [OF a b c d] a b d show ?thesis by simp
qed

text \<open>
  C3. The claim is that a header whose size field is not a non-negative integer is
  turned down, and in particular that a negative size is never accepted. The handler
  accepts one: for \<open>a|-2|hello\<close> it takes \<open>filesize = -2\<close>, finds the transfer
  complete at once, stores \<open>data[:-2]\<close>, the bytes \<open>hel\<close>, and sends the
  acknowledgement of a successful reception.
\<close>

theorem C3_negative_size_accepted:
  "handle_client False ''received_files'' Map.empty
     \<lparr> incoming = [Chunk ''a|-2|hello''], disk = WriteOk, ack_delivered = True \<rparr> =
   Some \<lparr> files_after = [''received_files/TCP_a'' \<mapsto> ''hel''],
     sent = [''ACK: Arquivo recebido com sucesso!''], closed = True, caught = None \<rparr>"
  by (simp add: handle_client_def handle_client_try_def initial_state_def process_header_def
     header_end_def bytes_find_def decode_utf8_def seq_len_def seq_ok_def byte_def slice_to_def
     slice_from_def py_int_def strip_def is_space_def unsigned_int_def digit_val_def
     path_join_def protocol_tag_def write_file_def ack_message_def)

text \<open>
  C4, as it is stated, fails. On a TLS server whose certificate cannot be loaded, the
  accepted socket is still open when the loop goes back to \<open>accept()\<close>, and no handler
  exists that would close it. On a plain server the loop goes back to \<open>accept()\<close>
  as soon as the handler thread is started, while the connection is being served.
\<close>

theorem C4_socket_left_open:
  "fst (accept_once (Accepted 7 ContextFails True)
          ((new_server True Map.empty) \<lparr> listener := Some True, running := True \<rparr>)) = Continue \<and>
   7 \<in> open_conns (snd (accept_once (Accepted 7 ContextFails True)
          ((new_server True Map.empty) \<lparr> listener := Some True, running := True \<rparr>))) \<and>
   handlers (snd (accept_once (Accepted 7 ContextFails True)
          ((new_server True Map.empty) \<lparr> listener := Some True, running := True \<rparr>))) = [] \<and>
   fst (accept_once (Accepted 8 TlsReady True)
          ((new_server False Map.empty) \<lparr> listener := Some True, running := True \<rparr>)) = Continue \<and>
   8 \<in> open_conns (snd (accept_once (Accepted 8 TlsReady True)
          ((new_server False Map.empty) \<lparr> listener := Some True, running := True \<rparr>)))"
  by (simp add: accept_once_def new_server_def report_def)

text \<open>
  C4, amended. The handler closes its socket on every way out of \<open>_handle_client\<close>:
  whenever it returns, the socket is closed; it returns whenever the peer does not
  leave \<open>recv\<close> waiting for ever, whatever the peer sends, whether the file can be
  written and whether the acknowledgement goes out; and a connection that was handed
  to a handler is then no longer open.
\<close>

theorem C4_handler_closes_its_connection:
  "(handle_client tls dir fs env = Some r \<longrightarrow> closed r) \<and>
   (Stall \<notin> set (incoming env) \<longrightarrow> (\<exists>r. handle_client tls dir fs env = Some r)) \<and>
   (c \<in> set (handlers s) \<and> Stall \<notin> set (incoming env) \<longrightarrow>
      c \<notin> open_conns (run_handler c env s))"
proof (intro conjI impI)
  assume "handle_client tls dir fs env = Some r"
  then show "closed r" by (rule handle_client_closed)
next
  assume "Stall \<notin> set (incoming env)"
  then show "\<exists>r. handle_client tls dir fs env = Some r" by (rule handle_client_returns)
next
  assume a: "c \<in> set (handlers s) \<and> Stall \<notin> set (incoming env)"
  then obtain r where r: "handle_client (use_tls s) (output_dir s) (store s) env = Some r"
    using handle_client_returns by blast
  then have "closed r" by (rule handle_client_closed)
  with a r show "c \<notin> open_conns (run_handler c env s)"
    by (simp add: run_handler_def)
qed

theorem C4_handler_closes_its_connection_witness:
  "handle_client False ''received_files'' Map.empty
     \<lparr> incoming = [RecvError], disk = OpenFails, ack_delivered = False \<rparr> =
     Some \<lparr> files_after = Map.empty, sent = [], closed = True, caught = Some OSError \<rparr> \<and>
   closed \<lparr> files_after = Map.empty, sent = [], closed = True, caught = Some OSError \<rparr> \<and>
   Stall \<notin> set (incoming \<lparr> incoming = [RecvError], disk = OpenFails, ack_delivered = False \<rparr>) \<and>
   8 \<in> set (handlers (snd (accept_once (Accepted 8 TlsReady True)
          ((new_server False Map.empty) \<lparr> listener := Some True, running := True \<rparr>)))) \<and>
   8 \<notin> open_conns (run_handler 8 \<lparr> incoming = [RecvError], disk = OpenFails, ack_delivered = False \<rparr>
     (snd (accept_once (Accepted 8 TlsReady True)
          ((new_server False Map.empty) \<lparr> listener := Some True, running := True \<rparr>))))"
proof -
  let ?s = "snd (accept_once (Accepted 8 TlsReady True)
          ((new_server False Map.empty) \<lparr> listener := Some True, running := True \<rparr>))"
  let ?env = "\<lparr> incoming = [RecvError], disk = OpenFails, ack_delivered = False \<rparr>"
  let ?r = "\<lparr> files_after = Map.empty, sent = [], closed = True, caught = Some OSError \<rparr>"
  have e: "handle_client False ''received_files'' Map.empty ?env = Some ?r"
    by (simp add: handle_client_def handle_client_try_def)
  have n: "Stall \<notin> set (incoming ?env)" by simp
  have h: "8 \<in> set (handlers ?s)"
    by (simp add: accept_once_def new_server_def report_def)
  from C4_handler_closes_its_connection
    [where tls = False and dir = "''received_files''" and fs = Map.empty and env = ?env
       and r = ?r and c = 8 and s = ?s] e n h
  show ?thesis by blast
qed

text \<open>
  C5, as it is stated, fails: \<open>connect_tls\<close> returns \<open>False\<close> when the server refuses
  the TCP connection and \<open>False\<close> when the TLS handshake fails, and \<open>connect_plain\<close>
  returns \<open>False\<close> as well; the results do not tell the failures apart.
\<close>

theorem C5_results_not_distinguishable:
  "fst (connect_tls True True (TransportFails Refused) (new_client ''localhost'' 5002)) = False \<and>
   fst (connect_tls True True HandshakeFailed (new_client ''localhost'' 5002)) = False \<and>
   fst (connect_plain True (PlainFails Refused) (new_client ''localhost'' 5001)) = False"
  by (simp add: connect_tls_def connect_plain_def)

text \<open>
  C5, amended. Each connect operation returns \<open>True\<close> when the connection is
  established and \<open>False\<close> for every failure, whatever its kind; an exception is
  printed exactly when the result is \<open>False\<close>.
\<close>

theorem C5_connect_returns_truth_value:
  "fst (connect_plain created outcome c) = (created \<and> outcome = PlainConnected) \<and>
   fst (connect_tls created context_ok tls_out c) =
     (created \<and> context_ok \<and> tls_out = TlsConnected) \<and>
   (snd (snd (connect_tls created context_ok tls_out c)) = None) =
     fst (connect_tls created context_ok tls_out c) \<and>
   (snd (snd (connect_plain created outcome c)) = None) = fst (connect_plain created outcome c)"
  by (cases outcome; cases tls_out) (simp_all add: connect_plain_def connect_tls_def)

text \<open>
  C6. When \<open>send_file\<close> returns \<open>True\<close>, it has sent the header \<open>name|size|\<close> and
  then the content it read from the file, and \<open>bytes_sent\<close> is the length of that
  header plus the length of that content.
\<close>

theorem C6_bytes_sent_is_header_plus_payload:
  "send_file path env c = Some r \<and> returned r \<longrightarrow>
     (\<exists>raw. local_files env path = Some (Readable raw) \<and>
        sent_bytes (trace r) =
          [make_header (basename path) (length (universal_newlines raw)),
           universal_newlines raw] \<and>
        bytes_sent (transfer_stats (client_after r)) =
          int (length (make_header (basename path) (length (universal_newlines raw)))) +
          int (length (universal_newlines raw)))"
proof
  assume "send_file path env c = Some r \<and> returned r"
  then have "send_file path env c = Some r" "returned r" by simp_all
  from send_file_success [OF this]
  show "\<exists>raw. local_files env path = Some (Readable raw) \<and>
        sent_bytes (trace r) =
          [make_header (basename path) (length (universal_newlines raw)),
           universal_newlines raw] \<and>
        bytes_sent (transfer_stats (client_after r)) =
          int (length (make_header (basename path) (length (universal_newlines raw)))) +
          int (length (universal_newlines raw))"
    by (auto simp: sent_bytes_def)
qed

theorem C6_bytes_sent_is_header_plus_payload_witness:
  "send_file ''docs/a.txt'' (demo_env (Chunk ''ACK'')) demo_client = Some demo_result \<and>
   returned demo_result \<and>
   sent_bytes (trace demo_result) = [''a.txt|6|'', ''hi'' @ [CHR 0x0A] @ ''you''] \<and>
   bytes_sent (transfer_stats (client_after demo_result)) = 8 + 6"
proof -
  have r: "send_file ''docs/a.txt'' (demo_env (Chunk ''ACK'')) demo_client = Some demo_result \<and>
      returned demo_result"
    by (simp add: send_file_demo) (simp add: demo_result_def)
  have lf: "local_files (demo_env (Chunk ''ACK'')) ''docs/a.txt'' =
      Some (Readable (''hi'' @ [CHR 0x0D, CHR 0x0A] @ ''you''))"
    by (simp add: demo_env_def)
  from C6_bytes_sent_is_header_plus_payload
    [of "''docs/a.txt''" "demo_env (Chunk ''ACK'')" demo_client demo_result] r
  obtain raw where raw: "local_files (demo_env (Chunk ''ACK'')) ''docs/a.txt'' = Some (Readable raw)"
    and s: "sent_bytes (trace demo_result) =
          [make_header (basename ''docs/a.txt'') (length (universal_newlines raw)),
           universal_newlines raw]"
    and b: "bytes_sent (transfer_stats (client_after demo_result)) =
          int (length (make_header (basename ''docs/a.txt'') (length (universal_newlines raw)))) +
          int (length (universal_newlines raw))"
    by blast
  from raw lf have "raw = ''hi'' @ [CHR 0x0D, CHR 0x0A] @ ''you''" by simp
  with s b r show ?thesis
    by (simp add: make_header_def basename_def py_str_6)
qed

text \<open>
  C7, as it is stated, fails: a complete frame does not always end in a stored file and
  an acknowledgement. A name that holds a NUL byte cannot be opened on any disk, and the
  handler ends with \<open>ValueError\<close>, nothing stored and nothing sent; the same happens
  with \<open>OSError\<close> when the file cannot be created; and when the acknowledgement
  cannot be sent the file is stored and no acknowledgement goes out.
\<close>

theorem C7_file_cannot_be_created:
  "handle_client False ''received_files'' Map.empty
     \<lparr> incoming = [Chunk (''a'' @ [CHR 0x00] @ ''b|1|x'')], disk = WriteOk,
       ack_delivered = True \<rparr> =
     Some \<lparr> files_after = Map.empty, sent = [], closed = True, caught = Some ValueError \<rparr> \<and>
   handle_client False ''received_files'' Map.empty
     \<lparr> incoming = [Chunk ''a.txt|1|x''], disk = OpenFails, ack_delivered = True \<rparr> =
     Some \<lparr> files_after = Map.empty, sent = [], closed = True, caught = Some OSError \<rparr> \<and>
   handle_client False ''received_files'' Map.empty
     \<lparr> incoming = [Chunk ''a.txt|1|x''], disk = WriteOk, ack_delivered = False \<rparr> =
     Some \<lparr> files_after = [''received_files/TCP_a.txt'' \<mapsto> ''x''], sent = [], closed = True,
            caught = Some OSError \<rparr>"
  by (simp add: handle_client_def handle_client_try_def initial_state_def process_header_def
     header_end_def bytes_find_def decode_utf8_def seq_len_def seq_ok_def byte_def slice_to_def
     slice_from_def py_int_def strip_def is_space_def unsigned_int_def digit_val_def
     path_join_def protocol_tag_def write_file_def)

text \<open>
  C7, amended. Let the chunks that arrive hold a header \<open>name|size|\<close>, where the size
  field is ASCII text of at most 4300 characters that \<open>int\<close> reads as a number that is
  not negative, followed by at least that many bytes. When the name holds no NUL byte,
  the file can be written and the acknowledgement sent, the handler stores exactly the
  first \<open>size\<close> bytes after the header in \<open>received_files/TCP_name\<close> on a plain
  server and in \<open>received_files/TLS_name\<close> on a TLS server, and then sends the
  acknowledgement. When the name holds a NUL byte, or the file cannot be created,
  nothing is stored and nothing is sent.
\<close>

theorem C7_complete_frame_is_persisted:
  assumes "CHR ''|'' \<notin> set name" and "CHR ''|'' \<notin> set field"
    and "utf8_valid (name @ ''|'' @ field @ ''|'')"
    and "\<forall>c\<in>set field. byte c < 128" and "length field \<le> 4300"
    and "py_int field = Inr n" and "0 \<le> n" and "n \<le> int (length payload)"
    and "\<forall>c\<in>set chunks. c \<noteq> []"
    and "concat chunks = name @ ''|'' @ field @ ''|'' @ payload"
    and "incoming env = map Chunk chunks @ later"
  shows "(CHR 0x00 \<notin> set name \<and> disk env = WriteOk \<and> ack_delivered env \<longrightarrow>
            handle_client tls ''received_files'' fs env =
              Some \<lparr> files_after =
                       fs(''received_files/'' @ (if tls then ''TLS_'' else ''TCP_'') @ name
                            \<mapsto> take (nat n) payload),
                     sent = [''ACK: Arquivo recebido com sucesso!''], closed = True,
                     caught = None \<rparr> \<and>
            int (length (take (nat n) payload)) = n) \<and>
         (CHR 0x00 \<in> set name \<longrightarrow>
            handle_client tls ''received_files'' fs env =
              Some \<lparr> files_after = fs, sent = [], closed = True, caught = Some ValueError \<rparr>) \<and>
         (CHR 0x00 \<notin> set name \<and> disk env = OpenFails \<longrightarrow>
            handle_client tls ''received_files'' fs env =
              Some \<lparr> files_after = fs, sent = [], closed = True, caught = Some OSError \<rparr>)"
proof -
  have "\<exists>d sfx. recv_loop (map Chunk chunks @ later) initial_state =
            Some (Inr \<lparr> data = d, header_received = True, filename = name, filesize = n \<rparr>) \<and>
          payload = d @ sfx \<and> n \<le> int (length d)"
    using assms(1-3,6,8-10) by (intro recv_loop_frame [where field = field]) simp_all
  then obtain d sfx where
    loop: "recv_loop (incoming env) initial_state =
             Some (Inr \<lparr> data = d, header_received = True, filename = name, filesize = n \<rparr>)"
    and p: "payload = d @ sfx" "n \<le> int (length d)"
    using assms(11) by auto
  from p assms(7) have cut: "slice_to d n = take (nat n) payload"
    by (simp add: slice_to_def)
  have len: "int (length (take (nat n) payload)) = n"
    using assms(7,8) by simp
  let ?path = "''received_files/'' @ (if tls then ''TLS_'' else ''TCP_'') @ name"
  have nul: "CHR 0x00 \<in> set ?path \<longleftrightarrow> CHR 0x00 \<in> set name"
    by simp
  have run: "handle_client tls ''received_files'' fs env =
      Some ((case write_file fs (disk env) ?path (take (nat n) payload) of
               (fs', Some e) \<Rightarrow>
                 \<lparr> files_after = fs', sent = [], closed = False, caught = Some e \<rparr>
             | (fs', None) \<Rightarrow>
                 if ack_delivered env
                 then \<lparr> files_after = fs', sent = [ack_message], closed = False, caught = None \<rparr>
                 else \<lparr> files_after = fs', sent = [], closed = False, caught = Some OSError \<rparr>)
            \<lparr> closed := True \<rparr>)"
    unfolding handle_client_def handle_client_try_def loop
    by (simp add: stored_path cut del: append.simps append_Cons append_Nil)
  show ?thesis
  proof (intro conjI impI)
    assume a: "CHR 0x00 \<notin> set name \<and> disk env = WriteOk \<and> ack_delivered env"
    with nul have "write_file fs (disk env) ?path (take (nat n) payload) =
        (fs(?path \<mapsto> take (nat n) payload), None)"
      unfolding write_file_def by simp
    with a show "handle_client tls ''received_files'' fs env =
              Some \<lparr> files_after = fs(?path \<mapsto> take (nat n) payload),
                     sent = [''ACK: Arquivo recebido com sucesso!''], closed = True,
                     caught = None \<rparr>"
      unfolding run by (simp add: ack_message_def)
    show "int (length (take (nat n) payload)) = n" by (rule len)
  next
    assume "CHR 0x00 \<in> set name"
    with nul have "write_file fs (disk env) ?path (take (nat n) payload) = (fs, Some ValueError)"
      unfolding write_file_def by simp
    then show "handle_client tls ''received_files'' fs env =
              Some \<lparr> files_after = fs, sent = [], closed = True, caught = Some ValueError \<rparr>"
      unfolding run by simp
  next
    assume a: "CHR 0x00 \<notin> set name \<and> disk env = OpenFails"
    with nul have "write_file fs (disk env) ?path (take (nat n) payload) = (fs, Some OSError)"
      unfolding write_file_def by simp
    then show "handle_client tls ''received_files'' fs env =
              Some \<lparr> files_after = fs, sent = [], closed = True, caught = Some OSError \<rparr>"
      unfolding run by simp
  qed
qed

text \<open>The same frame on a plain and on a TLS server, and a frame whose name holds a NUL
  byte.\<close>

theorem C7_complete_frame_is_persisted_witness:
  "handle_client False ''received_files'' Map.empty
     \<lparr> incoming = map Chunk [''a.txt|3'', ''|he'', ''llo''] @ [RecvError], disk = WriteOk,
       ack_delivered = True \<rparr> =
     Some \<lparr> files_after = [''received_files/TCP_a.txt'' \<mapsto> ''hel''],
            sent = [''ACK: Arquivo recebido com sucesso!''], closed = True, caught = None \<rparr> \<and>
   handle_client True ''received_files'' Map.empty
     \<lparr> incoming = map Chunk [''a.txt|3'', ''|he'', ''llo''] @ [RecvError], disk = WriteOk,
       ack_delivered = True \<rparr> =
     Some \<lparr> files_after = [''received_files/TLS_a.txt'' \<mapsto> ''hel''],
            sent = [''ACK: Arquivo recebido com sucesso!''], closed = True, caught = None \<rparr> \<and>
   handle_client True ''received_files'' Map.empty
     \<lparr> incoming = map Chunk [''a'' @ [CHR 0x00] @ ''|3'', ''|he'', ''llo''] @ [RecvError],
       disk = WriteOk, ack_delivered = True \<rparr> =
     Some \<lparr> files_after = Map.empty, sent = [], closed = True, caught = Some ValueError \<rparr>"
proof -
  let ?env = "\<lparr> incoming = map Chunk [''a.txt|3'', ''|he'', ''llo''] @ [RecvError], disk = WriteOk,
       ack_delivered = True \<rparr>"
  let ?nulenv = "\<lparr> incoming = map Chunk [''a'' @ [CHR 0x00] @ ''|3'', ''|he'', ''llo''] @ [RecvError],
       disk = WriteOk, ack_delivered = True \<rparr>"
  have a: "CHR ''|'' \<notin> set ''a.txt''" "CHR ''|'' \<notin> set ''3''" by simp_all
  have a0: "CHR ''|'' \<notin> set (''a'' @ [CHR 0x00])" by simp
  have b: "utf8_valid (''a.txt'' @ ''|'' @ ''3'' @ ''|'')"
    by (simp add: seq_len_def seq_ok_def byte_def)
  have b0: "utf8_valid ((''a'' @ [CHR 0x00]) @ ''|'' @ ''3'' @ ''|'')"
    by (simp add: seq_len_def seq_ok_def byte_def)
  have c: "\<forall>c\<in>set ''3''. byte c < 128" "length ''3'' \<le> 4300" by (simp_all add: byte_def)
  have d: "py_int ''3'' = Inr 3"
    by (simp add: py_int_def strip_def is_space_def unsigned_int_def digit_val_def byte_def)
  have e: "(0::int) \<le> 3" "(3::int) \<le> int (length ''hello'')" by simp_all
  have f: "\<forall>c\<in>set [''a.txt|3'', ''|he'', ''llo'']. c \<noteq> []" by simp
  have f0: "\<forall>c\<in>set [''a'' @ [CHR 0x00] @ ''|3'', ''|he'', ''llo'']. c \<noteq> []" by simp
  have g: "concat [''a.txt|3'', ''|he'', ''llo''] = ''a.txt'' @ ''|'' @ ''3'' @ ''|'' @ ''hello''"
    by simp
  have g0: "concat [''a'' @ [CHR 0x00] @ ''|3'', ''|he'', ''llo''] =
      (''a'' @ [CHR 0x00]) @ ''|'' @ ''3'' @ ''|'' @ ''hello''"
    by simp
  have h: "incoming ?env = map Chunk [''a.txt|3'', ''|he'', ''llo''] @ [RecvError]" by simp
  have h0: "incoming ?nulenv = map Chunk [''a'' @ [CHR 0x00] @ ''|3'', ''|he'', ''llo''] @ [RecvError]"
    by simp
  have k: "CHR 0x00 \<notin> set ''a.txt'' \<and> disk ?env = WriteOk \<and> ack_delivered ?env" by simp
  have k0: "CHR 0x00 \<in> set (''a'' @ [CHR 0x00])" by simp
  from C7_complete_frame_is_persisted [OF a b c d e f g h, of False Map.empty] k
  have 1: "handle_client False ''received_files'' Map.empty ?env =
     Some \<lparr> files_after = [''received_files/TCP_a.txt'' \<mapsto> ''hel''],
            sent = [''ACK: Arquivo recebido com sucesso!''], closed = True, caught = None \<rparr>"
    by simp
  from C7_complete_frame_is_persisted [OF a b c d e f g h, of True Map.empty] k
  have 2: "handle_client True ''received_files'' Map.empty ?env =
     Some \<lparr> files_after = [''received_files/TLS_a.txt'' \<mapsto> ''hel''],
            sent = [''ACK: Arquivo recebido com sucesso!''], closed = True, caught = None \<rparr>"
    by simp
  from C7_complete_frame_is_persisted [OF a0 a(2) b0 c d e f0 g0 h0, of True Map.empty] k0
  have 3: "handle_client True ''received_files'' Map.empty ?nulenv =
     Some \<lparr> files_after = Map.empty, sent = [], closed = True, caught = Some ValueError \<rparr>"
    by blast
  from 1 2 3 show ?thesis by blast
qed

text \<open>
  C8. When \<open>send_file\<close> returns \<open>True\<close>, its calls were, in this order: the first
  reading of the clock, the two \<open>sendall\<close> calls, the second reading of the clock,
  and only then \<open>recv\<close>; the recorded time is the second reading minus the first.
\<close>

theorem C8_timer_spans_the_two_sends:
  "send_file path env c = Some r \<and> returned r \<longrightarrow>
     (\<exists>header payload reply.
        trace r =
          [Time (clock env 0), SendAll header, SendAll payload, Time (clock env 1), Recv reply]) \<and>
     transfer_time (transfer_stats (client_after r)) = clock env 1 - clock env 0"
proof
  assume "send_file path env c = Some r \<and> returned r"
  then have "send_file path env c = Some r" "returned r" by simp_all
  from send_file_success [OF this]
  show "(\<exists>header payload reply.
        trace r =
          [Time (clock env 0), SendAll header, SendAll payload, Time (clock env 1), Recv reply]) \<and>
     transfer_time (transfer_stats (client_after r)) = clock env 1 - clock env 0"
    by auto
qed

theorem C8_timer_spans_the_two_sends_witness:
  "send_file ''docs/a.txt'' (demo_env (Chunk ''ACK'')) demo_client = Some demo_result \<and>
   returned demo_result \<and>
   trace demo_result =
     [Time 10, SendAll ''a.txt|6|'', SendAll (''hi'' @ [CHR 0x0A] @ ''you''), Time 12,
      Recv ''ACK''] \<and>
   transfer_time (transfer_stats (client_after demo_result)) = 12 - 10"
proof -
  have r: "send_file ''docs/a.txt'' (demo_env (Chunk ''ACK'')) demo_client = Some demo_result \<and>
      returned demo_result"
    by (simp add: send_file_demo) (simp add: demo_result_def)
  have t: "trace demo_result =
     [Time 10, SendAll ''a.txt|6|'', SendAll (''hi'' @ [CHR 0x0A] @ ''you''), Time 12,
      Recv ''ACK'']"
    by (simp add: demo_result_def)
  from C8_timer_spans_the_two_sends
    [of "''docs/a.txt''" "demo_env (Chunk ''ACK'')" demo_client demo_result] r
  have "transfer_time (transfer_stats (client_after demo_result)) =
       clock (demo_env (Chunk ''ACK'')) 1 - clock (demo_env (Chunk ''ACK'')) 0"
    by blast
  then have "transfer_time (transfer_stats (client_after demo_result)) = 12 - 10"
    by (simp add: demo_env_def)
  with r t show ?thesis by blast
qed

text \<open>
  C9. Whatever happens to single connections (the certificate cannot be loaded, the
  handshake fails, the thread does not start, \<open>accept\<close> raises, a handler fails or
  succeeds), as long as nobody stops the server the accept loop stays in \<open>accept()\<close>
  with the listening socket as it was, and the next connection gets its handler. A
  server that cannot create, bind or listen on its socket ends at once, having
  accepted nothing.
\<close>

theorem C9_accept_loop_survives_errors:
  "(running s \<and> (\<forall>e\<in>set es. \<not> shutdown_request e) \<longrightarrow>
      fst (accept_loop es s) = Accepting \<and> running (snd (accept_loop es s)) \<and>
      listener (snd (accept_loop es s)) = listener s \<and>
      c \<in> set (handlers (snd (accept_loop (es @ [Acceptor (Accepted c TlsReady True)]) s)))) \<and>
   (su \<noteq> Listening \<longrightarrow>
      fst (start su es s) = Exited \<and> \<not> running (snd (start su es s)) \<and>
      handlers (snd (start su es s)) = handlers s) \<and>
   ((\<forall>e\<in>set es. \<not> shutdown_request e) \<longrightarrow> fst (start Listening es s) = Accepting)"
proof (intro conjI impI)
  assume a: "running s \<and> (\<forall>e\<in>set es. \<not> shutdown_request e)"
  let ?s' = "snd (accept_loop es s)"
  from a have ap: "accept_loop (es @ [Acceptor (Accepted c TlsReady True)]) s =
      accept_loop [Acceptor (Accepted c TlsReady True)] ?s'"
    and k: "fst (accept_loop es s) = Accepting" "running ?s'" "listener ?s' = listener s"
    using accept_loop_append [of s es] by simp_all
  from k show "fst (accept_loop es s) = Accepting" "running ?s'" "listener ?s' = listener s"
    by simp_all
  from k(2) show "c \<in> set (handlers (snd (accept_loop (es @ [Acceptor (Accepted c TlsReady True)]) s)))"
    unfolding ap by (simp add: accept_once_def Let_def report_def)
next
  assume "su \<noteq> Listening"
  then show "fst (start su es s) = Exited" "\<not> running (snd (start su es s))"
    "handlers (snd (start su es s)) = handlers s"
    by (cases su; simp add: start_def stop_def report_def)+
next
  assume a: "\<forall>e\<in>set es. \<not> shutdown_request e"
  let ?s0 = "s \<lparr> listener := Some True, running := True \<rparr>"
  have "fst (accept_loop es ?s0) = Accepting"
    using accept_loop_append [of ?s0 es] a by simp
  then show "fst (start Listening es s) = Accepting"
    by (cases "accept_loop es ?s0") (simp add: start_def)
qed

theorem C9_accept_loop_survives_errors_witness:
  "fst (start Listening
     [Acceptor (Accepted 1 HandshakeFails True), Acceptor AcceptFails,
      Acceptor (Accepted 2 TlsReady True),
      Handler 2 \<lparr> incoming = [Chunk ''a|x|''], disk = WriteOk, ack_delivered = True \<rparr>]
     (new_server True Map.empty)) = Accepting \<and>
   3 \<in> set (handlers (snd (accept_loop
     ([Acceptor (Accepted 1 HandshakeFails True), Acceptor AcceptFails,
      Acceptor (Accepted 2 TlsReady True),
      Handler 2 \<lparr> incoming = [Chunk ''a|x|''], disk = WriteOk, ack_delivered = True \<rparr>] @
      [Acceptor (Accepted 3 TlsReady True)])
     ((new_server True Map.empty) \<lparr> listener := Some True, running := True \<rparr>)))) \<and>
   fst (start BindFails [Acceptor (Accepted 1 TlsReady True)] (new_server True Map.empty)) = Exited"
proof -
  let ?es = "[Acceptor (Accepted 1 HandshakeFails True), Acceptor AcceptFails,
      Acceptor (Accepted 2 TlsReady True),
      Handler 2 \<lparr> incoming = [Chunk ''a|x|''], disk = WriteOk, ack_delivered = True \<rparr>]"
  let ?s = "(new_server True Map.empty) \<lparr> listener := Some True, running := True \<rparr>"
  have h: "\<forall>e\<in>set ?es. \<not> shutdown_request e" by (simp add: shutdown_request_def)
  have r: "running ?s" by simp
  have b: "BindFails \<noteq> Listening" by simp
  from C9_accept_loop_survives_errors [where s = "new_server True Map.empty" and es = ?es] h
  have 1: "fst (start Listening ?es (new_server True Map.empty)) = Accepting" by blast
  from C9_accept_loop_survives_errors [where s = ?s and es = ?es and c = 3] h r
  have 2: "3 \<in> set (handlers (snd (accept_loop (?es @ [Acceptor (Accepted 3 TlsReady True)]) ?s)))"
    by blast
  from C9_accept_loop_survives_errors [where su = BindFails
      and es = "[Acceptor (Accepted 1 TlsReady True)]" and s = "new_server True Map.empty"] b
  have 3: "fst (start BindFails [Acceptor (Accepted 1 TlsReady True)] (new_server True Map.empty)) = Exited"
    by blast
  from 1 2 3 show ?thesis by blast
qed

text \<open>
  C10. When \<open>send_file\<close> returns \<open>False\<close>, the client, and with it
  \<open>transfer_stats\<close>, is as it was before the call. The statistics change only in a
  run that returns \<open>True\<close>, whose last call is the \<open>recv\<close> that returned the reply.
\<close>

theorem C10_failure_leaves_stats_untouched:
  "(send_file path env c = Some r \<and> \<not> returned r \<longrightarrow>
      transfer_stats (client_after r) = transfer_stats c \<and> client_after r = c) \<and>
   (send_file path env c = Some r \<and> transfer_stats (client_after r) \<noteq> transfer_stats c \<longrightarrow>
      returned r \<and> (\<exists>pre reply. trace r = pre @ [Recv reply]))"
proof (intro conjI impI)
  assume "send_file path env c = Some r \<and> \<not> returned r"
  then have "send_file path env c = Some r" "\<not> returned r" by simp_all
  from send_file_failure [OF this]
  show "transfer_stats (client_after r) = transfer_stats c" "client_after r = c"
    by simp_all
next
  assume ch: "send_file path env c = Some r \<and> transfer_stats (client_after r) \<noteq> transfer_stats c"
  show ret: "returned r"
  proof (rule ccontr)
    assume "\<not> returned r"
    with ch send_file_failure [of path env c r] show False by simp
  qed
  from ch have "send_file path env c = Some r" by simp
  from send_file_success [OF this ret]
  obtain tr reply where "trace r = tr @ [Recv reply]"
    by (metis append_Cons append_Nil)
  then show "\<exists>pre reply. trace r = pre @ [Recv reply]" by blast
qed

theorem C10_failure_leaves_stats_untouched_witness:
  "send_file ''docs/a.txt'' (demo_env RecvError) demo_client = Some demo_failure \<and>
   \<not> returned demo_failure \<and>
   transfer_stats (client_after demo_failure) = transfer_stats demo_client \<and>
   send_file ''docs/a.txt'' (demo_env (Chunk ''ACK'')) demo_client = Some demo_result \<and>
   transfer_stats (client_after demo_result) \<noteq> transfer_stats demo_client \<and>
   returned demo_result \<and>
   (\<exists>pre reply. trace demo_result = pre @ [Recv reply])"
proof -
  have f: "send_file ''docs/a.txt'' (demo_env RecvError) demo_client = Some demo_failure \<and>
      \<not> returned demo_failure"
    by (simp add: send_file_demo_no_reply) (simp add: demo_failure_def)
  have g: "send_file ''docs/a.txt'' (demo_env (Chunk ''ACK'')) demo_client = Some demo_result \<and>
      transfer_stats (client_after demo_result) \<noteq> transfer_stats demo_client"
    by (simp add: send_file_demo) (simp add: demo_result_def demo_client_def new_client_def)
  from C10_failure_leaves_stats_untouched
    [of "''docs/a.txt''" "demo_env RecvError" demo_client demo_failure] f
  have 1: "transfer_stats (client_after demo_failure) = transfer_stats demo_client"
    by blast
  from C10_failure_leaves_stats_untouched
    [of "''docs/a.txt''" "demo_env (Chunk ''ACK'')" demo_client demo_result] g
  have 2: "returned demo_result \<and> (\<exists>pre reply. trace demo_result = pre @ [Recv reply])"
    by blast
  from f g 1 2 show ?thesis by blast
qed

end
